theory Spec2Isabelle
  imports Complex_Main
begin

section \<open>Values of the Python program\<close>

text \<open>
  The exceptions the pipeline of \<^verbatim>\<open>PricingCalendar.py\<close> can raise. The program
  defines no exception class of its own: every failure is one of Python's or
  pandas' built-in exceptions, caught only by the front-end.
\<close>

datatype error =
    IndexError
  | KeyError
  | ValueError
  | ZeroDivisionError
  | OverflowError
  | AttributeError

text \<open>
  The integers that can stand in a monthly-totals dictionary: a Python \<^verbatim>\<open>int\<close>, or
  a NumPy \<^verbatim>\<open>int64\<close> scalar (what \<^verbatim>\<open>Series.sum()\<close> returns in
  \<^verbatim>\<open>extract_monthly_totals\<close>). They compare by value, and differ in what \<^verbatim>\<open>/\<close>
  does with a zero divisor.
\<close>

datatype pynum = PyInt int | NpInt64 int

fun num_val :: "pynum \<Rightarrow> int" where
  "num_val (PyInt a) = a"
| "num_val (NpInt64 a) = a"

text \<open>
  A binary64 value: a finite value is represented by the rational number it denotes,
  and the three special values are kept apart. Rounding to 53 bits, overflow and
  underflow are not modelled: arithmetic on finite values is exact.
\<close>

datatype pyfloat = Fin rat | PInf | NInf | NaN

text \<open>\<^verbatim>\<open>x >= c\<close> for a float \<^verbatim>\<open>x\<close> and a finite constant \<^verbatim>\<open>c\<close>: false on NaN.\<close>

fun float_ge :: "pyfloat \<Rightarrow> rat \<Rightarrow> bool" where
  "float_ge (Fin q) c = (c \<le> q)"
| "float_ge PInf c = True"
| "float_ge NInf c = False"
| "float_ge NaN c = False"

text \<open>\<^verbatim>\<open>x >= y\<close> for two floats (IEEE 754: any comparison with NaN is false).\<close>

fun float_geq :: "pyfloat \<Rightarrow> pyfloat \<Rightarrow> bool" where
  "float_geq NaN y = False"
| "float_geq x NaN = False"
| "float_geq PInf y = True"
| "float_geq x NInf = True"
| "float_geq NInf y = False"
| "float_geq x PInf = False"
| "float_geq (Fin a) (Fin b) = (b \<le> a)"

text \<open>
  \<^verbatim>\<open>a / b\<close>. Two Python ints raise \<^verbatim>\<open>ZeroDivisionError\<close> on a zero divisor. As soon
  as one operand is a NumPy scalar the division is NumPy's \<^verbatim>\<open>true_divide\<close>, which
  raises nothing: it warns and returns NaN for \<^verbatim>\<open>0 / 0\<close> and a signed infinity for
  \<^verbatim>\<open>a / 0\<close>. The quotient is kept exact: neither its rounding to a double nor the
  \<^verbatim>\<open>OverflowError\<close> of a Python integer beyond the range of a float is modelled.
\<close>

fun np_divide :: "int \<Rightarrow> int \<Rightarrow> pyfloat" where
  "np_divide a b =
     (if b \<noteq> 0 then Fin (of_int a / of_int b)
      else if a = 0 then NaN
      else if 0 < a then PInf
      else NInf)"

fun truediv :: "pynum \<Rightarrow> pynum \<Rightarrow> error + pyfloat" where
  "truediv (PyInt a) (PyInt b) =
     (if b = 0 then Inl ZeroDivisionError else Inr (Fin (of_int a / of_int b)))"
| "truediv x y = Inr (np_divide (num_val x) (num_val y))"

section \<open>Band classifier\<close>

text \<open>The dictionary \<^verbatim>\<open>classify_band\<close> receives, with its five keys.\<close>

record features =
  Coach_Pressure :: pyfloat
  Weekday :: string
  Season :: string
  Trips_Scheduled :: nat
  Avg_Complexity :: rat

text \<open>
  Lines 63-82 of \<^verbatim>\<open>classify_band\<close>: the local variable \<^verbatim>\<open>score\<close> when the band is
  chosen. The sum with the average complexity is exact, where Python adds doubles.
\<close>

definition band_score :: "features \<Rightarrow> rat" where
  "band_score row =
     (let score = 0;
          score = (if float_ge (Coach_Pressure row) (9 / 10) then score + 3
                   else if float_ge (Coach_Pressure row) (7 / 10) then score + 2
                   else if float_ge (Coach_Pressure row) (5 / 10) then score + 1
                   else score);
          score = (if Weekday row \<in> set [''Friday'', ''Saturday'', ''Sunday'']
                   then score + 1 else score);
          score = (if Season row = ''Winter'' then score + 1
                   else if Season row = ''Spring'' then score + 2
                   else if Season row = ''Fall'' then score + 1
                   else score);
          score = (if 5 \<le> Trips_Scheduled row then score + 2
                   else if 3 \<le> Trips_Scheduled row then score + 1
                   else score)
      in score + Avg_Complexity row)"

text \<open>Lines 84-95: the band and its reason, by descending thresholds.\<close>

definition classify_band :: "features \<Rightarrow> string \<times> string" where
  "classify_band row =
     (let score = band_score row in
      if 7 \<le> score then (''B (50%)'', ''High volume, peak season, complex trips'')
      else if 6 \<le> score then (''C+ (45%)'', ''Very active day with high potential'')
      else if 5 \<le> score then (''C (40%)'', ''Healthy demand with multiple trip drivers'')
      else if 4 \<le> score then (''D+ (35%)'', ''Mid-level day with moderate complexity'')
      else if 3 \<le> score then (''D (30%)'', ''Low trip count but seasonal factors'')
      else (''E+ (25%)'', ''Soft demand day with low pressure and simple trips''))"

text \<open>
  The threshold table of the band assignment as the specification words it: each
  score threshold with its band, and the band below every threshold.
\<close>

definition band_thresholds :: "(rat \<times> string) list" where
  "band_thresholds =
     [(7, ''B (50%)''), (6, ''C+ (45%)''), (5, ''C (40%)''),
      (4, ''D+ (35%)''), (3, ''D (30%)'')]"

definition lowest_band :: string where
  "lowest_band = ''E+ (25%)''"

definition band_labels :: "string list" where
  "band_labels = map snd band_thresholds @ [lowest_band]"

section \<open>Calendar dates\<close>

text \<open>
  A \<^verbatim>\<open>datetime.date\<close> of the proleptic Gregorian calendar. The program takes its
  dates from Python's \<^verbatim>\<open>datetime\<close> and \<^verbatim>\<open>calendar\<close> modules; what it uses of them is
  modelled here: the constructor's range check, the leap-year rule, adding a number
  of days, the ordinal of a date and the weekday and month names of \<^verbatim>\<open>strftime\<close>.
\<close>

record date =
  year :: int
  month :: nat
  day :: nat

text \<open>\<^verbatim>\<open>calendar.isleap\<close>.\<close>

definition isleap :: "int \<Rightarrow> bool" where
  "isleap y = (y mod 4 = 0 \<and> (y mod 100 \<noteq> 0 \<or> y mod 400 = 0))"

definition days_in_month :: "int \<Rightarrow> nat \<Rightarrow> nat" where
  "days_in_month y m =
     (if m = 2 then (if isleap y then 29 else 28)
      else if m \<in> set [4, 6, 9, 11] then 30
      else 31)"

text \<open>
  \<^verbatim>\<open>datetime(year, month, day)\<close>: a \<^verbatim>\<open>ValueError\<close> outside the years 1 to 9999 or
  for a day the month does not have.
\<close>

definition datetime :: "int \<Rightarrow> nat \<Rightarrow> nat \<Rightarrow> error + date" where
  "datetime y m d =
     (if y < 1 \<or> 9999 < y then Inl ValueError
      else if m < 1 \<or> 12 < m then Inl ValueError
      else if d < 1 \<or> days_in_month y m < d then Inl ValueError
      else Inr \<lparr>year = y, month = m, day = d\<rparr>)"

text \<open>
  The calendar day after a date, and the date \<^verbatim>\<open>n\<close> days after a date: what
  \<^verbatim>\<open>date + timedelta(days=n)\<close> computes through the ordinals of the two dates.
\<close>

definition next_day :: "date \<Rightarrow> date" where
  "next_day d =
     (if day d < days_in_month (year d) (month d) then d\<lparr>day := day d + 1\<rparr>
      else if month d < 12 then \<lparr>year = year d, month = month d + 1, day = 1\<rparr>
      else \<lparr>year = year d + 1, month = 1, day = 1\<rparr>)"

fun add_days :: "date \<Rightarrow> nat \<Rightarrow> date" where
  "add_days d 0 = d"
| "add_days d (Suc n) = add_days (next_day d) n"

text \<open>
  \<^verbatim>\<open>d + timedelta(days=i)\<close> for \<^verbatim>\<open>i >= 0\<close>: the date \<^verbatim>\<open>i\<close> days later, an
  \<^verbatim>\<open>OverflowError\<close> past the year 9999.
\<close>

definition date_add :: "date \<Rightarrow> nat \<Rightarrow> error + date" where
  "date_add d i =
     (let r = add_days d i in if 9999 < year r then Inl OverflowError else Inr r)"

text \<open>
  \<^verbatim>\<open>date.toordinal()\<close>: January 1 of year 1 has ordinal 1. The weekday is the
  ordinal modulo 7, with 0 for Monday.
\<close>

definition days_before_year :: "int \<Rightarrow> int" where
  "days_before_year y =
     (let y1 = y - 1 in y1 * 365 + y1 div 4 - y1 div 100 + y1 div 400)"

definition days_before_month :: "int \<Rightarrow> nat \<Rightarrow> nat" where
  "days_before_month y m = sum_list (map (days_in_month y) [1..<m])"

definition toordinal :: "date \<Rightarrow> int" where
  "toordinal d =
     days_before_year (year d) + int (days_before_month (year d) (month d)) + int (day d)"

definition weekday :: "date \<Rightarrow> nat" where
  "weekday d = nat ((toordinal d + 6) mod 7)"

definition day_names :: "string list" where
  "day_names =
     [''Monday'', ''Tuesday'', ''Wednesday'', ''Thursday'', ''Friday'', ''Saturday'',
      ''Sunday'']"

definition month_names :: "string list" where
  "month_names =
     [''January'', ''February'', ''March'', ''April'', ''May'', ''June'', ''July'',
      ''August'', ''September'', ''October'', ''November'', ''December'']"

text \<open>\<^verbatim>\<open>strftime('%A')\<close> and \<^verbatim>\<open>strftime('%B')\<close> in the C locale.\<close>

definition strftime_A :: "date \<Rightarrow> string" where
  "strftime_A d = day_names ! weekday d"

definition strftime_B :: "date \<Rightarrow> string" where
  "strftime_B d = month_names ! (month d - 1)"

text \<open>The decimal numeral of a natural number, without padding.\<close>

definition digit_char :: "nat \<Rightarrow> char" where
  "digit_char n = ''0123456789'' ! n"

fun str_nat :: "nat \<Rightarrow> string" where
  "str_nat n = (if n < 10 then [digit_char n] else str_nat (n div 10) @ [digit_char (n mod 10)])"

text \<open>
  \<^verbatim>\<open>strftime("%B %-d")\<close>; on Windows the program asks for \<^verbatim>\<open>"%B %#d"\<close>, which
  prints the same text.
\<close>

definition formatted_date :: "date \<Rightarrow> string" where
  "formatted_date d = strftime_B d @ '' '' @ str_nat (day d)"

section \<open>Daily feature builder\<close>

definition get_season :: "nat \<Rightarrow> string" where
  "get_season m =
     (if m \<in> set [12, 1, 2] then ''Winter''
      else if m \<in> set [3, 4, 5] then ''Spring''
      else if m \<in> set [6, 7, 8] then ''Summer''
      else ''Fall'')"

text \<open>
  A row of the normalized dispatch frame, as far as \<^verbatim>\<open>build_calendar\<close> reads it:
  the columns \<^verbatim>\<open>'Date'\<close> and \<^verbatim>\<open>'Trip Complexity'\<close>.
\<close>

record trip =
  Date :: date
  Trip_Complexity :: int

text \<open>
  The monthly totals are a Python dictionary from month numbers to integers, kept
  as an association list in insertion order.
\<close>

type_synonym monthly_totals = "(nat \<times> pynum) list"

definition dict_get :: "('k \<times> 'v) list \<Rightarrow> 'k \<Rightarrow> 'v \<Rightarrow> 'v" where
  "dict_get m k dflt = (case map_of m k of None \<Rightarrow> dflt | Some v \<Rightarrow> v)"

text \<open>
  \<^verbatim>\<open>max(xs)\<close>: a \<^verbatim>\<open>ValueError\<close> on an empty sequence, else the first of the largest
  items (a later item replaces the best one only when it is strictly greater).
\<close>

fun max_from :: "pynum \<Rightarrow> pynum list \<Rightarrow> pynum" where
  "max_from best [] = best"
| "max_from best (x # xs) = max_from (if num_val best < num_val x then x else best) xs"

definition py_max :: "pynum list \<Rightarrow> error + pynum" where
  "py_max xs = (case xs of [] \<Rightarrow> Inl ValueError | x # rest \<Rightarrow> Inr (max_from x rest))"

text \<open>\<^verbatim>\<open>Series.mean()\<close> of a non-empty integer column.\<close>

definition mean :: "int list \<Rightarrow> rat" where
  "mean xs = of_int (sum_list xs) / of_nat (length xs)"

text \<open>
  \<^verbatim>\<open>round(x, 2)\<close>: to two decimals, a tie going to the even neighbour; NaN and the
  infinities are returned as they are. The exact rational is rounded, where Python
  rounds the double nearest to it: the two can differ in the last digit.
\<close>

definition rint :: "rat \<Rightarrow> int" where
  "rint q =
     (let f = \<lfloor>q\<rfloor>; r = q - of_int f in
      if r < 1 / 2 then f
      else if 1 / 2 < r then f + 1
      else if even f then f
      else f + 1)"

definition round2 :: "rat \<Rightarrow> rat" where
  "round2 q = of_int (rint (q * 100)) / 100"

fun round2_float :: "pyfloat \<Rightarrow> pyfloat" where
  "round2_float (Fin q) = Fin (round2 q)"
| "round2_float x = x"

text \<open>
  Lines 105-122 of \<^verbatim>\<open>build_calendar\<close>: the date of day \<^verbatim>\<open>i\<close> and the feature
  dictionary handed to \<^verbatim>\<open>classify_band\<close>. Within the days of one year the
  division is the only step that can raise.
\<close>

definition day_features ::
  "date \<Rightarrow> monthly_totals \<Rightarrow> pynum \<Rightarrow> trip list \<Rightarrow> nat \<Rightarrow> error + (date \<times> features)" where
  "day_features start_date totals max_pressure dispatch_df i =
     (case date_add start_date i of
        Inl e \<Rightarrow> Inl e
      | Inr dt \<Rightarrow>
          (case truediv (dict_get totals (month dt) (PyInt 0)) max_pressure of
             Inl e \<Rightarrow> Inl e
           | Inr pressure \<Rightarrow>
               (let trips_today = filter (\<lambda>t. Date t = dt) dispatch_df;
                    trip_count = length trips_today;
                    complexity_avg =
                      (if 0 < trip_count then mean (map Trip_Complexity trips_today) else 0)
                in Inr (dt,
                     \<lparr>Coach_Pressure = pressure,
                      Weekday = strftime_A dt,
                      Season = get_season (month dt),
                      Trips_Scheduled = trip_count,
                      Avg_Complexity = complexity_avg\<rparr>))))"

record calendar_row =
  Full_Date :: date
  Formatted_Date :: string
  Month :: string
  Row_Weekday :: string
  Row_Season :: string
  Row_Coach_Pressure :: pyfloat
  Row_Trips_Scheduled :: nat
  Avg_Trip_Complexity :: rat
  Suggested_Band :: string
  Reason :: string

text \<open>Lines 116-137: classify the day and build the dictionary appended to \<^verbatim>\<open>rows\<close>.\<close>

definition calendar_row_of :: "date \<times> features \<Rightarrow> calendar_row" where
  "calendar_row_of df =
     (let dt = fst df; f = snd df; band_reason = classify_band f in
      \<lparr>Full_Date = dt,
       Formatted_Date = formatted_date dt,
       Month = strftime_B dt,
       Row_Weekday = Weekday f,
       Row_Season = Season f,
       Row_Coach_Pressure = round2_float (Coach_Pressure f),
       Row_Trips_Scheduled = Trips_Scheduled f,
       Avg_Trip_Complexity = round2 (Avg_Complexity f),
       Suggested_Band = fst band_reason,
       Reason = snd band_reason\<rparr>)"

text \<open>
  The loop \<^verbatim>\<open>for i in range(days)\<close>: the rows are appended in order, and the first
  exception leaves the function without a result.
\<close>

fun calendar_loop ::
  "(nat \<Rightarrow> error + (date \<times> features)) \<Rightarrow> nat list \<Rightarrow> calendar_row list \<Rightarrow>
   error + calendar_row list" where
  "calendar_loop body [] rows = Inr rows"
| "calendar_loop body (i # rest) rows =
     (case body i of
        Inl e \<Rightarrow> Inl e
      | Inr df \<Rightarrow> calendar_loop body rest (rows @ [calendar_row_of df]))"

definition build_calendar :: "int \<Rightarrow> monthly_totals \<Rightarrow> trip list \<Rightarrow> error + calendar_row list" where
  "build_calendar y totals dispatch_df =
     (case py_max (map snd totals) of
        Inl e \<Rightarrow> Inl e
      | Inr max_pressure \<Rightarrow>
          (case datetime y 1 1 of
             Inl e \<Rightarrow> Inl e
           | Inr start_date \<Rightarrow>
               (let days = (if isleap y then 366 else 365) in
                calendar_loop (day_features start_date totals max_pressure dispatch_df)
                  [0..<days] [])))"

section \<open>Monthly pressure extractor\<close>

text \<open>
  A cell of a table read by pandas: a missing value (NaN), a string, or any other
  object (a number, a timestamp), of which only the text \<^verbatim>\<open>str()\<close> gives is kept.
  Strings are sequences of ASCII characters.
\<close>

datatype cell = Blank | Text string | Obj string

text \<open>\<^verbatim>\<open>str(c)\<close>, which is what \<^verbatim>\<open>astype(str)\<close> applies to every cell.\<close>

fun str_cell :: "cell \<Rightarrow> string" where
  "str_cell Blank = ''nan''"
| "str_cell (Text s) = s"
| "str_cell (Obj s) = s"

fun notna :: "cell \<Rightarrow> bool" where
  "notna Blank = False"
| "notna c = True"

definition is_digit :: "char \<Rightarrow> bool" where
  "is_digit c = (c \<in> set ''0123456789'')"

text \<open>
  \<^verbatim>\<open>str.extract(r'(\d+)')\<close> on one string: the first run of digits, or no match
  (a NaN that \<^verbatim>\<open>dropna()\<close> removes).
\<close>

definition extract_digits :: "string \<Rightarrow> string option" where
  "extract_digits s =
     (let run = takeWhile is_digit (dropWhile (\<lambda>c. \<not> is_digit c) s)
      in if run = [] then None else Some run)"

definition digit_val :: "char \<Rightarrow> int" where
  "digit_val c = int (of_char c) - 48"

definition int_of_digits :: "string \<Rightarrow> int" where
  "int_of_digits ds = foldl (\<lambda>a c. 10 * a + digit_val c) 0 ds"

text \<open>
  \<^verbatim>\<open>astype(int)\<close> on the digit strings: 64-bit integers, an \<^verbatim>\<open>OverflowError\<close> for a
  number that does not fit.
\<close>

fun astype_int :: "string list \<Rightarrow> error + int list" where
  "astype_int [] = Inr []"
| "astype_int (s # rest) =
     (if 2 ^ 63 \<le> int_of_digits s then Inl OverflowError
      else (case astype_int rest of Inl e \<Rightarrow> Inl e | Inr vs \<Rightarrow> Inr (int_of_digits s # vs)))"

text \<open>The sum of an \<^verbatim>\<open>int64\<close> column wraps around in two's complement.\<close>

definition wrap64 :: "int \<Rightarrow> int" where
  "wrap64 x = (x + 2 ^ 63) mod 2 ^ 64 - 2 ^ 63"

definition month_map :: "(string \<times> nat) list" where
  "month_map =
     [(''January'', 1), (''February'', 2), (''March'', 3), (''April'', 4),
      (''May'', 5), (''June'', 6), (''July'', 7), (''August'', 8),
      (''September'', 9), (''October'', 10), (''November'', 11), (''December'', 12)]"

text \<open>The positions of the columns whose label is the string \<^verbatim>\<open>name\<close>.\<close>

definition column_positions :: "cell list \<Rightarrow> string \<Rightarrow> nat list" where
  "column_positions header name = filter (\<lambda>j. header ! j = Text name) [0..<length header]"

definition cell_at :: "cell list \<Rightarrow> nat \<Rightarrow> cell" where
  "cell_at row j = (if j < length row then row ! j else Blank)"

text \<open>
  Lines 24-25 for a month whose name is among the column labels. With one such
  column \<^verbatim>\<open>tbn_df[month]\<close> is a Series, and the digits of its cells are summed.
  With several columns of that label it is a DataFrame, which has no \<^verbatim>\<open>.str\<close>: an
  \<^verbatim>\<open>AttributeError\<close>. The loop calls this only for a label that occurs, so the list
  of positions is never empty there.
\<close>

definition month_total :: "cell list \<Rightarrow> cell list list \<Rightarrow> string \<Rightarrow> error + pynum" where
  "month_total header data month_name =
     (case column_positions header month_name of
        [j] \<Rightarrow>
          (case astype_int
                  (List.map_filter extract_digits (map (\<lambda>row. str_cell (cell_at row j)) data)) of
             Inl e \<Rightarrow> Inl e
           | Inr vals \<Rightarrow> Inr (NpInt64 (wrap64 (sum_list vals))))
      | _ \<Rightarrow> Inl AttributeError)"

text \<open>The loop over \<^verbatim>\<open>month_map.items()\<close>, filling \<^verbatim>\<open>monthly_totals\<close>.\<close>

fun totals_loop ::
  "cell list \<Rightarrow> cell list list \<Rightarrow> (string \<times> nat) list \<Rightarrow> monthly_totals \<Rightarrow>
   error + monthly_totals" where
  "totals_loop header data [] acc = Inr acc"
| "totals_loop header data ((month_name, col) # rest) acc =
     (if Text month_name \<in> set header then
        (case month_total header data month_name of
           Inl e \<Rightarrow> Inl e
         | Inr v \<Rightarrow> totals_loop header data rest (acc @ [(col, v)]))
      else totals_loop header data rest acc)"

text \<open>
  \<^verbatim>\<open>extract_monthly_totals\<close>. The table was read with \<^verbatim>\<open>header=None\<close>: a list of
  rows of cells. \<^verbatim>\<open>iloc[4:]\<close> drops four rows, \<^verbatim>\<open>iloc[0]\<close> of what is left is the
  header row (an \<^verbatim>\<open>IndexError\<close> when nothing is left), the rows after it are the data.
\<close>

definition extract_monthly_totals :: "cell list list \<Rightarrow> error + monthly_totals" where
  "extract_monthly_totals tbn_df =
     (case drop 4 tbn_df of
        [] \<Rightarrow> Inl IndexError
      | header # data \<Rightarrow> totals_loop header data month_map [])"

section \<open>Dispatch normalizer\<close>

text \<open>
  The dispatch table was read with its header row: column labels, and rows of cells
  in the order of the labels.
\<close>

record dispatch_frame =
  df_columns :: "string list"
  df_rows :: "cell list list"

text \<open>
  \<^verbatim>\<open>row.get(key, default)\<close> on a row of a frame with the given column labels. The
  labels of a table read with its header row are distinct (pandas renames a repeated
  one), so a label has at most one cell in a row.
\<close>

definition series_get :: "string list \<Rightarrow> cell list \<Rightarrow> string \<Rightarrow> cell \<Rightarrow> cell" where
  "series_get cols vals key dflt =
     (case map_of (zip cols vals) key of None \<Rightarrow> dflt | Some v \<Rightarrow> v)"

definition lower_char :: "char \<Rightarrow> char" where
  "lower_char c =
     (case map_of (zip ''ABCDEFGHIJKLMNOPQRSTUVWXYZ'' ''abcdefghijklmnopqrstuvwxyz'') c of
        None \<Rightarrow> c
      | Some l \<Rightarrow> l)"

text \<open>\<^verbatim>\<open>s.lower()\<close> on ASCII text: the capital letters become small ones.\<close>

definition lower :: "string \<Rightarrow> string" where
  "lower s = map lower_char s"

text \<open>\<^verbatim>\<open>x in text\<close> for two strings: \<^verbatim>\<open>x\<close> occurs in \<^verbatim>\<open>text\<close> as a substring.\<close>

fun starts_with :: "string \<Rightarrow> string \<Rightarrow> bool" where
  "starts_with [] t = True"
| "starts_with (a # x) [] = False"
| "starts_with (a # x) (c # t) = (a = c \<and> starts_with x t)"

fun contains :: "string \<Rightarrow> string \<Rightarrow> bool" where
  "contains x [] = (x = [])"
| "contains x (c # t) = (starts_with x (c # t) \<or> contains x t)"

text \<open>\<^verbatim>\<open>sep.join(parts)\<close>.\<close>

fun join :: "string \<Rightarrow> string list \<Rightarrow> string" where
  "join sep [] = []"
| "join sep [p] = p"
| "join sep (p # q # rest) = p @ sep @ join sep (q # rest)"

text \<open>
  \<^verbatim>\<open>infer_complexity\<close>, on a row of a frame with the column labels \<^verbatim>\<open>cols\<close>. The
  columns the function reads keep their cells through the steps before it.
\<close>

definition infer_complexity :: "string list \<Rightarrow> cell list \<Rightarrow> int" where
  "infer_complexity cols row =
     (let text = lower (join '' ''
            [str_cell (series_get cols row ''Route Description'' (Text [])),
             str_cell (series_get cols row ''Destination'' (Text [])),
             str_cell (series_get cols row ''Group Name'' (Text []))])
      in if list_ex (\<lambda>x. contains x text) [''nyc'', ''manhattan'', ''dc'', ''downtown''] then 1
         else if list_ex (\<lambda>x. contains x text) [''hershey'', ''dorney'', ''park'', ''amusement'']
         then - 1
         else 0)"

text \<open>
  \<^verbatim>\<open>load_dispatch\<close>. \<^verbatim>\<open>dispatch_df['Booking ID']\<close> and
  \<^verbatim>\<open>dispatch_df['First Departure']\<close> raise a \<^verbatim>\<open>KeyError\<close> when the frame has no
  such column. \<^verbatim>\<open>pd.to_datetime(..., errors='coerce')\<close> is a parameter: it maps the
  column to one parsed date per cell, or none where the cell does not parse. The
  result is the returned frame as far as \<^verbatim>\<open>build_calendar\<close> reads it.
\<close>

definition load_dispatch ::
  "(cell list \<Rightarrow> date option list) \<Rightarrow> dispatch_frame \<Rightarrow> error + trip list" where
  "load_dispatch to_datetime dispatch_df =
     (let cols = df_columns dispatch_df in
      if ''Booking ID'' \<notin> set cols then Inl KeyError
      else
        (let kept = filter (\<lambda>r. notna (series_get cols r ''Booking ID'' Blank))
                      (df_rows dispatch_df)
         in if ''First Departure'' \<notin> set cols then Inl KeyError
            else
              (let parsed = to_datetime (map (\<lambda>r. series_get cols r ''First Departure'' Blank) kept)
               in Inr (List.map_filter
                         (\<lambda>rp. case snd rp of
                                  None \<Rightarrow> None
                                | Some d \<Rightarrow>
                                    Some \<lparr>Date = d,
                                          Trip_Complexity = infer_complexity cols (fst rp)\<rparr>)
                         (zip kept parsed)))))"

text \<open>
  The required columns the specification lists for the dispatch table, and the
  substring relation its keyword rule is worded with.
\<close>

definition required_columns :: "string list" where
  "required_columns =
     [''Booking ID'', ''First Departure'', ''Route Description'', ''Destination'',
      ''Group Name'']"

definition is_substring :: "string \<Rightarrow> string \<Rightarrow> bool" where
  "is_substring x t = (\<exists>before after. t = before @ x @ after)"

text \<open>
  The dispatch normalization in the words of the specification, to compare
  \<^verbatim>\<open>load_dispatch\<close> with. The text of a row under a column is the text of its
  cell, and the empty string when the table has no such column. The complexity of a
  text is 1 when an urban keyword is a substring of it, else -1 when a leisure
  keyword is, else 0. The trips are, in the order of the rows, one for every row
  that has a booking id and whose departure parses, with the parsed date and the
  complexity of the row's three texts joined by spaces and lower-cased.
\<close>

definition column_text :: "string list \<Rightarrow> cell list \<Rightarrow> string \<Rightarrow> string" where
  "column_text cols row name =
     (if name \<in> set cols then str_cell (series_get cols row name (Text [])) else [])"

definition keyword_complexity :: "string \<Rightarrow> int" where
  "keyword_complexity t =
     (if \<exists>k \<in> set [''nyc'', ''manhattan'', ''dc'', ''downtown'']. is_substring k t then 1
      else if \<exists>k \<in> set [''hershey'', ''dorney'', ''park'', ''amusement'']. is_substring k t
      then - 1
      else 0)"

definition normalized_trips ::
  "(cell list \<Rightarrow> date option list) \<Rightarrow> dispatch_frame \<Rightarrow> trip list" where
  "normalized_trips to_datetime df =
     (let cols = df_columns df;
          booked = filter (\<lambda>r. series_get cols r ''Booking ID'' Blank \<noteq> Blank) (df_rows df);
          departures = to_datetime (map (\<lambda>r. series_get cols r ''First Departure'' Blank) booked)
      in concat
           (map (\<lambda>(r, parsed).
                   case parsed of
                     None \<Rightarrow> []
                   | Some d \<Rightarrow>
                       [\<lparr>Date = d,
                         Trip_Complexity =
                           keyword_complexity
                             (lower (column_text cols r ''Route Description'' @ '' ''
                                     @ column_text cols r ''Destination'' @ '' ''
                                     @ column_text cols r ''Group Name''))\<rparr>])
              (zip booked departures)))"

text \<open>
  The days of a year in calendar order, written out month by month: the reference
  the dates of the calendar are compared with.
\<close>

definition month_dates :: "int \<Rightarrow> nat \<Rightarrow> date list" where
  "month_dates y m = map (\<lambda>d. \<lparr>year = y, month = m, day = d\<rparr>) [1..<Suc (days_in_month y m)]"

definition year_dates :: "int \<Rightarrow> date list" where
  "year_dates y = concat (map (month_dates y) [1..<13])"

section \<open>Properties of the band classifier\<close>

lemma float_ge_mono: "float_geq p1 p2 \<Longrightarrow> float_ge p2 c \<Longrightarrow> float_ge p1 c"
  by (cases p1; cases p2) auto

text \<open>
  Claim C2. For every feature record, whatever its coach pressure (NaN and the
  infinities included), weekday, season, trip count and average complexity,
  \<^verbatim>\<open>classify_band\<close> returns one of the six band labels. The band is the one of the
  highest threshold among 7, 6, 5, 4, 3 that does not exceed the score, and the
  lowest band when the score is below every threshold. The function is total and
  has no error value in its result type.
\<close>

theorem classify_band_total_by_threshold:
  "fst (classify_band row) \<in> set band_labels
   \<and> (\<forall>(t, b) \<in> set band_thresholds.
         t \<le> band_score row
         \<and> (\<forall>(t', b') \<in> set band_thresholds. t' \<le> band_score row \<longrightarrow> t' \<le> t)
         \<longrightarrow> fst (classify_band row) = b)
   \<and> ((\<forall>(t, b) \<in> set band_thresholds. band_score row < t)
         \<longrightarrow> fst (classify_band row) = lowest_band)"
  by (simp add: classify_band_def band_labels_def band_thresholds_def lowest_band_def Let_def)

theorem classify_band_total_by_threshold_witness:
  "band_score \<lparr>Coach_Pressure = Fin (3 / 4), Weekday = ''Saturday'', Season = ''Spring'',
                Trips_Scheduled = 4, Avg_Complexity = - (1 / 2)\<rparr> = 11 / 2
   \<and> fst (classify_band \<lparr>Coach_Pressure = Fin (3 / 4), Weekday = ''Saturday'',
                Season = ''Spring'', Trips_Scheduled = 4, Avg_Complexity = - (1 / 2)\<rparr>)
       = ''C (40%)''
   \<and> band_score \<lparr>Coach_Pressure = NaN, Weekday = ''Monday'', Season = ''Summer'',
                Trips_Scheduled = 0, Avg_Complexity = 0\<rparr> = 0
   \<and> fst (classify_band \<lparr>Coach_Pressure = NaN, Weekday = ''Monday'', Season = ''Summer'',
                Trips_Scheduled = 0, Avg_Complexity = 0\<rparr>) = ''E+ (25%)''"
proof -
  let ?r = "\<lparr>Coach_Pressure = Fin (3 / 4), Weekday = ''Saturday'', Season = ''Spring'',
             Trips_Scheduled = 4, Avg_Complexity = - (1 / 2)\<rparr>"
  let ?q = "\<lparr>Coach_Pressure = NaN, Weekday = ''Monday'', Season = ''Summer'',
             Trips_Scheduled = 0, Avg_Complexity = 0\<rparr>"
  have sr: "band_score ?r = 11 / 2"
    by (simp add: band_score_def)
  have sq: "band_score ?q = 0"
    by (simp add: band_score_def)
  have br: "fst (classify_band ?r) = ''C (40%)''"
    using classify_band_total_by_threshold [of ?r]
    by (simp add: sr band_thresholds_def)
  have bq: "fst (classify_band ?q) = ''E+ (25%)''"
    using classify_band_total_by_threshold [of ?q]
    by (simp add: sq band_thresholds_def lowest_band_def)
  show ?thesis
    by (simp only: sr sq br bq simp_thms)
qed

text \<open>
  Claim C5. Two feature records that agree on weekday, season, trip count and
  average complexity: when the coach pressure of the first is greater than or equal
  to that of the second (Python's \<^verbatim>\<open>>=\<close> on floats), the score of the first is
  greater than or equal to the score of the second.
\<close>

theorem band_score_mono_pressure:
  assumes "float_geq (Coach_Pressure r1) (Coach_Pressure r2)"
    and "Weekday r1 = Weekday r2"
    and "Season r1 = Season r2"
    and "Trips_Scheduled r1 = Trips_Scheduled r2"
    and "Avg_Complexity r1 = Avg_Complexity r2"
  shows "band_score r2 \<le> band_score r1"
  using assms float_ge_mono [of "Coach_Pressure r1" "Coach_Pressure r2"]
  by (auto simp add: band_score_def Let_def)

theorem band_score_mono_pressure_witness:
  "float_geq (Fin (19 / 20)) (Fin (3 / 5))
   \<and> band_score \<lparr>Coach_Pressure = Fin (3 / 5), Weekday = ''Tuesday'', Season = ''Fall'',
                  Trips_Scheduled = 3, Avg_Complexity = 1 / 3\<rparr>
     \<le> band_score \<lparr>Coach_Pressure = Fin (19 / 20), Weekday = ''Tuesday'', Season = ''Fall'',
                  Trips_Scheduled = 3, Avg_Complexity = 1 / 3\<rparr>"
proof -
  have ge: "float_geq (Fin (19 / 20)) (Fin (3 / 5))"
    by simp
  show ?thesis
    using ge
      band_score_mono_pressure
        [of "\<lparr>Coach_Pressure = Fin (19 / 20), Weekday = ''Tuesday'', Season = ''Fall'',
               Trips_Scheduled = 3, Avg_Complexity = 1 / 3\<rparr>"
            "\<lparr>Coach_Pressure = Fin (3 / 5), Weekday = ''Tuesday'', Season = ''Fall'',
               Trips_Scheduled = 3, Avg_Complexity = 1 / 3\<rparr>"]
    by simp
qed

section \<open>Adding days and the days of a year\<close>

lemma add_days_add: "add_days d (a + b) = add_days (add_days d a) b"
  by (induction a arbitrary: d) simp_all

lemma add_days_Suc: "add_days d (Suc n) = next_day (add_days d n)"
  by (induction n arbitrary: d) simp_all

lemma add_days_within_month:
  "day d + n \<le> days_in_month (year d) (month d) \<Longrightarrow> add_days d n = d\<lparr>day := day d + n\<rparr>"
proof (induction n arbitrary: d)
  case 0
  then show ?case by simp
next
  case (Suc n)
  from Suc.prems have lt: "day d < days_in_month (year d) (month d)" by simp
  then have nd: "next_day d = d\<lparr>day := day d + 1\<rparr>" by (simp add: next_day_def)
  have "add_days (next_day d) n = (next_day d)\<lparr>day := day (next_day d) + n\<rparr>"
    using Suc.prems by (intro Suc.IH) (simp add: nd)
  then show ?case by (simp add: nd)
qed

lemma days_in_month_pos: "0 < days_in_month y m"
  by (simp add: days_in_month_def)

lemma month_run:
  "map (add_days \<lparr>year = y, month = m, day = 1\<rparr>) [0..<days_in_month y m] = month_dates y m"
proof -
  have "map (add_days \<lparr>year = y, month = m, day = 1\<rparr>) [0..<days_in_month y m]
      = map (\<lambda>k. \<lparr>year = y, month = m, day = Suc k\<rparr>) [0..<days_in_month y m]"
    by (rule map_cong) (simp_all add: add_days_within_month)
  also have "\<dots> = month_dates y m"
    unfolding month_dates_def by (simp add: map_Suc_upt[symmetric] del: upt_Suc)
  finally show ?thesis .
qed

lemma month_end:
  "add_days \<lparr>year = y, month = m, day = 1\<rparr> (days_in_month y m) =
     (if m < 12 then \<lparr>year = y, month = m + 1, day = 1\<rparr>
      else \<lparr>year = y + 1, month = 1, day = 1\<rparr>)"
proof -
  obtain k where k: "days_in_month y m = Suc k"
    using days_in_month_pos[of y m] by (cases "days_in_month y m") auto
  have "add_days \<lparr>year = y, month = m, day = 1\<rparr> k = \<lparr>year = y, month = m, day = Suc k\<rparr>"
    by (subst add_days_within_month) (simp_all add: k)
  then show ?thesis
    by (simp add: k add_days_Suc next_day_def del: add_days.simps)
qed

lemma days_before_month_Suc:
  "1 \<le> m \<Longrightarrow> days_before_month y (Suc m) = days_before_month y m + days_in_month y m"
  by (simp add: days_before_month_def)

lemma map_upt_split: "map f [0..<a + b] = map f [0..<a] @ map (\<lambda>k. f (a + k)) [0..<b]"
proof -
  have "[0..<a + b] = [0..<a] @ [a..<a + b]"
    by (rule upt_add_eq_append) simp
  moreover have "map f [a..<a + b] = map (\<lambda>k. f (a + k)) [0..<b]"
    by (induction b) simp_all
  ultimately show ?thesis by simp
qed

lemma month_start:
  "1 \<le> m \<Longrightarrow> m \<le> 12 \<Longrightarrow>
   add_days \<lparr>year = y, month = 1, day = 1\<rparr> (days_before_month y m)
     = \<lparr>year = y, month = m, day = 1\<rparr>"
proof (induction m)
  case 0
  then show ?case by simp
next
  case (Suc m)
  show ?case
  proof (cases "m = 0")
    case True
    then show ?thesis by (simp add: days_before_month_def)
  next
    case False
    with Suc have "add_days \<lparr>year = y, month = 1, day = 1\<rparr> (days_before_month y m)
        = \<lparr>year = y, month = m, day = 1\<rparr>"
      by simp
    with False Suc.prems month_end[of y m] show ?thesis
      by (simp add: days_before_month_Suc add_days_add del: add_days.simps)
  qed
qed

lemma months_run:
  "m \<le> 12 \<Longrightarrow>
   map (add_days \<lparr>year = y, month = 1, day = 1\<rparr>) [0..<days_before_month y (Suc m)]
     = concat (map (month_dates y) [1..<Suc m])"
proof (induction m)
  case 0
  then show ?case by (simp add: days_before_month_def)
next
  case (Suc m)
  show ?case
  proof (cases "m = 0")
    case True
    then show ?thesis
      using month_run[of y 1] by (simp add: days_before_month_def)
  next
    case False
    then have m1: "1 \<le> Suc m" by simp
    have IH: "map (add_days \<lparr>year = y, month = 1, day = 1\<rparr>) [0..<days_before_month y (Suc m)]
      = concat (map (month_dates y) [1..<Suc m])"
      using Suc by simp
    have start: "add_days \<lparr>year = y, month = 1, day = 1\<rparr> (days_before_month y (Suc m))
        = \<lparr>year = y, month = Suc m, day = 1\<rparr>"
      using Suc.prems by (intro month_start) simp_all
    have "map (add_days \<lparr>year = y, month = 1, day = 1\<rparr>) [0..<days_before_month y (Suc (Suc m))]
       = map (add_days \<lparr>year = y, month = 1, day = 1\<rparr>) [0..<days_before_month y (Suc m)]
         @ map (add_days \<lparr>year = y, month = Suc m, day = 1\<rparr>) [0..<days_in_month y (Suc m)]"
      by (simp only: days_before_month_Suc[OF m1] map_upt_split add_days_add start)
    also have "\<dots> = concat (map (month_dates y) [1..<Suc m]) @ month_dates y (Suc m)"
      by (simp only: IH month_run)
    also have "\<dots> = concat (map (month_dates y) [1..<Suc (Suc m)])"
      by simp
    finally show ?thesis .
  qed
qed

lemma days_in_year: "days_before_month y 13 = (if isleap y then 366 else 365)"
  by (simp add: days_before_month_def days_in_month_def upt_rec[of _ 13] upt_rec[of _ 12])

lemma year_run:
  "map (add_days \<lparr>year = y, month = 1, day = 1\<rparr>) [0..<(if isleap y then 366 else 365)]
     = year_dates y"
proof -
  have eq: "Suc 12 = 13"
    by simp
  have "map (add_days \<lparr>year = y, month = 1, day = 1\<rparr>) [0..<days_before_month y 13]
      = concat (map (month_dates y) [1..<13])"
    by (rule months_run[of 12 y, OF order_refl, unfolded eq])
  then show ?thesis
    by (simp only: year_dates_def days_in_year)
qed

lemma year_dates_year: "d \<in> set (year_dates y) \<Longrightarrow> year d = y"
  by (auto simp add: year_dates_def month_dates_def)

lemma length_year_dates: "length (year_dates y) = (if isleap y then 366 else 365)"
  using arg_cong[OF year_run[of y], of length] by (simp split: if_splits)

lemma year_dates_nth:
  "i < (if isleap y then 366 else 365) \<Longrightarrow>
   year_dates y ! i = add_days \<lparr>year = y, month = 1, day = 1\<rparr> i"
  using arg_cong[OF year_run[of y], of "\<lambda>xs. xs ! i"] by (simp split: if_splits)

lemma add_days_in_year:
  assumes "i < (if isleap y then 366 else 365)"
  shows "year (add_days \<lparr>year = y, month = 1, day = 1\<rparr> i) = y"
proof -
  have "year_dates y ! i \<in> set (year_dates y)"
    using assms by (intro nth_mem) (simp add: length_year_dates)
  then show ?thesis
    using assms by (simp add: year_dates_nth year_dates_year)
qed

section \<open>The ordinal of a date and the day after it\<close>

lemma div_step:
  fixes y k :: int
  assumes "0 < k"
  shows "y div k = (y - 1) div k + (if y mod k = 0 then 1 else 0)"
proof (cases "y mod k = 0")
  case True
  then obtain q where q: "y = k * q"
    by auto
  have "(k * q - 1) div k = q - 1"
  proof (rule int_div_pos_eq[where r = "k - 1"])
    show "k * q - 1 = k * (q - 1) + (k - 1)" by (simp add: algebra_simps)
    show "0 \<le> k - 1" using assms by simp
    show "k - 1 < k" by simp
  qed
  with True assms show ?thesis
    by (simp add: q)
next
  case False
  define r where "r = y mod k"
  have "0 \<le> r" and r2: "r < k"
    using assms by (simp_all add: r_def)
  with False have r1: "0 < r"
    by (simp add: r_def)
  have y: "y = k * (y div k) + r"
    by (simp add: r_def)
  have "(y - 1) div k = y div k"
  proof (rule int_div_pos_eq[where r = "r - 1"])
    show "y - 1 = k * (y div k) + (r - 1)" using y by simp
    show "0 \<le> r - 1" using r1 by simp
    show "r - 1 < k" using r2 by simp
  qed
  with False show ?thesis by simp
qed

lemma mod_100_mod_4: "(y::int) mod 100 = 0 \<Longrightarrow> y mod 4 = 0"
proof -
  assume "y mod 100 = 0"
  then have "100 dvd y" by (simp add: mod_eq_0_iff_dvd)
  moreover have "(4::int) dvd 100" by simp
  ultimately have "4 dvd y" by (rule dvd_trans[rotated])
  then show ?thesis by (simp add: mod_eq_0_iff_dvd)
qed

lemma mod_400_mod_100: "(y::int) mod 400 = 0 \<Longrightarrow> y mod 100 = 0"
proof -
  assume "y mod 400 = 0"
  then have "400 dvd y" by (simp add: mod_eq_0_iff_dvd)
  moreover have "(100::int) dvd 400" by simp
  ultimately have "100 dvd y" by (rule dvd_trans[rotated])
  then show ?thesis by (simp add: mod_eq_0_iff_dvd)
qed

lemma days_before_year_Suc:
  "days_before_year (y + 1) = days_before_year y + (if isleap y then 366 else 365)"
proof -
  define a :: int where "a = (if y mod 4 = 0 then 1 else 0)"
  define b :: int where "b = (if y mod 100 = 0 then 1 else 0)"
  define c :: int where "c = (if y mod 400 = 0 then 1 else 0)"
  define p4 where "p4 = (y - 1) div 4"
  define p100 where "p100 = (y - 1) div 100"
  define p400 where "p400 = (y - 1) div 400"
  have d4: "y div 4 = p4 + a"
    unfolding a_def p4_def by (rule div_step) simp
  have d100: "y div 100 = p100 + b"
    unfolding b_def p100_def by (rule div_step) simp
  have d400: "y div 400 = p400 + c"
    unfolding c_def p400_def by (rule div_step) simp
  have l: "days_before_year (y + 1) = y * 365 + (p4 + a) - (p100 + b) + (p400 + c)"
    by (simp add: days_before_year_def Let_def d4 d100 d400)
  have r: "days_before_year y = (y - 1) * 365 + p4 - p100 + p400"
    by (simp add: days_before_year_def Let_def p4_def p100_def p400_def)
  have e: "days_before_year (y + 1) = days_before_year y + 365 + (a - b + c)"
    unfolding l r by (simp add: algebra_simps)
  have "a - b + c = (if isleap y then 1 else 0)"
  proof (cases "y mod 4 = 0")
    case False
    with mod_100_mod_4[of y] mod_400_mod_100[of y] show ?thesis
      by (auto simp add: a_def b_def c_def isleap_def)
  next
    case True
    show ?thesis
    proof (cases "y mod 100 = 0")
      case False
      with True mod_400_mod_100[of y] show ?thesis
        by (auto simp add: a_def b_def c_def isleap_def)
    next
      case h: True
      with True show ?thesis
        by (simp add: a_def b_def c_def isleap_def)
    qed
  qed
  with e show ?thesis
    by simp
qed

lemma days_before_month_12: "days_before_month y 12 + 31 = (if isleap y then 366 else 365)"
  by (simp add: days_before_month_def days_in_month_def upt_rec[of _ 12])

text \<open>
  The two models of Python's date arithmetic agree: on a date of the calendar, the
  day after it has the next ordinal, so adding \<^verbatim>\<open>n\<close> days adds \<^verbatim>\<open>n\<close> to the
  ordinal, as \<^verbatim>\<open>date + timedelta(days=n)\<close> does, and the weekday advances by one.
\<close>

lemma toordinal_next_day:
  assumes "1 \<le> month d" and "month d \<le> 12" and "day d \<le> days_in_month (year d) (month d)"
  shows "toordinal (next_day d) = toordinal d + 1"
proof (cases "day d < days_in_month (year d) (month d)")
  case True
  then show ?thesis
    by (simp add: next_day_def toordinal_def)
next
  case False
  with assms(3) have full: "day d = days_in_month (year d) (month d)"
    by simp
  show ?thesis
  proof (cases "month d < 12")
    case True
    have "days_before_month (year d) (Suc (month d))
        = days_before_month (year d) (month d) + days_in_month (year d) (month d)"
      using assms(1) by (rule days_before_month_Suc)
    with True full show ?thesis
      by (simp add: next_day_def toordinal_def)
  next
    case False
    with assms(2) have m: "month d = 12"
      by simp
    then have d31: "day d = 31"
      using full by (simp add: days_in_month_def)
    have nd: "next_day d = \<lparr>year = year d + 1, month = 1, day = 1\<rparr>"
      by (simp add: next_day_def m d31 days_in_month_def)
    have z: "days_before_month (year d + 1) 1 = 0"
      by (simp add: days_before_month_def)
    have "toordinal (next_day d) = days_before_year (year d + 1) + 1"
      using z by (simp add: nd toordinal_def)
    also have "\<dots> = days_before_year (year d) + (if isleap (year d) then 366 else 365) + 1"
      by (simp only: days_before_year_Suc)
    also have "\<dots> = days_before_year (year d) + int (days_before_month (year d) 12 + 31) + 1"
      by (simp only: days_before_month_12) simp
    also have "\<dots> = toordinal d + 1"
      by (simp add: toordinal_def m d31)
    finally show ?thesis .
  qed
qed

lemma weekday_next_day:
  assumes "1 \<le> month d" and "month d \<le> 12" and "day d \<le> days_in_month (year d) (month d)"
  shows "weekday (next_day d) = (weekday d + 1) mod 7"
proof -
  have "int (weekday (next_day d)) = (toordinal d + 1 + 6) mod 7"
    by (simp add: weekday_def toordinal_next_day[OF assms])
  also have "\<dots> = ((toordinal d + 6) mod 7 + 1) mod 7"
    by (simp add: mod_simps algebra_simps)
  also have "\<dots> = int ((weekday d + 1) mod 7)"
    by (simp add: weekday_def zmod_int add.commute)
  finally show ?thesis
    by simp
qed

section \<open>The calendar loop\<close>

lemma calendar_loop_ok:
  "(\<And>i. i \<in> set idx \<Longrightarrow> \<exists>df. body i = Inr df) \<Longrightarrow>
   calendar_loop body idx acc = Inr (acc @ map (\<lambda>i. calendar_row_of (projr (body i))) idx)"
proof (induction idx arbitrary: acc)
  case Nil
  then show ?case by simp
next
  case (Cons i rest)
  obtain df where df: "body i = Inr df"
    using Cons.prems[of i] by auto
  have "calendar_loop body rest (acc @ [calendar_row_of df])
      = Inr ((acc @ [calendar_row_of df]) @ map (\<lambda>i. calendar_row_of (projr (body i))) rest)"
    using Cons.prems by (intro Cons.IH) simp
  then show ?case
    by (simp add: df)
qed

lemma max_from_mem: "max_from b xs \<in> set (b # xs)"
  by (induction xs arbitrary: b) (simp, force)

lemma max_from_ge: "x \<in> set (b # xs) \<Longrightarrow> num_val x \<le> num_val (max_from b xs)"
proof (induction xs arbitrary: b x)
  case Nil
  then show ?case by simp
next
  case (Cons a xs)
  have step: "num_val (if num_val b < num_val a then a else b) \<le> num_val (max_from b (a # xs))"
    using Cons.IH[of "if num_val b < num_val a then a else b" "if num_val b < num_val a then a else b"]
    by simp
  show ?case
  proof (cases "x \<in> set xs")
    case True
    then show ?thesis
      using Cons.IH[of x "if num_val b < num_val a then a else b"] by simp
  next
    case False
    with Cons.prems have "x = b \<or> x = a" by auto
    then show ?thesis
      using step by (auto split: if_splits)
  qed
qed

lemma py_max_positive:
  assumes "v \<in> set vs" and "0 < num_val v"
  shows "\<exists>mx. py_max vs = Inr mx \<and> 0 < num_val mx"
proof (cases vs)
  case Nil
  with assms show ?thesis by simp
next
  case (Cons b xs)
  have "num_val v \<le> num_val (max_from b xs)"
    using assms(1) Cons by (intro max_from_ge) simp
  with assms(2) show ?thesis
    by (simp add: py_max_def Cons)
qed

lemma max_from_first: "(\<And>x. x \<in> set xs \<Longrightarrow> num_val x \<le> num_val b) \<Longrightarrow> max_from b xs = b"
  by (induction xs) (simp_all add: leD)

lemma truediv_nonzero:
  "num_val mx \<noteq> 0 \<Longrightarrow> truediv a mx = Inr (Fin (of_int (num_val a) / of_int (num_val mx)))"
  by (cases a; cases mx) simp_all

lemma truediv_numpy: "truediv a (NpInt64 b) = Inr (np_divide (num_val a) b)"
  by (cases a) simp_all

lemma dict_get_const:
  "(\<And>v. v \<in> set (map snd m) \<Longrightarrow> v = c) \<Longrightarrow> dict_get m k c = c"
  by (auto simp add: dict_get_def split: option.splits dest!: map_of_SomeD) force

lemma Full_Date_calendar_row_of: "Full_Date (calendar_row_of df) = fst df"
  by (simp add: calendar_row_of_def Let_def)

lemma day_features_date:
  "day_features start totals mx trips i = Inr df \<Longrightarrow> fst df = add_days start i"
  by (auto simp add: day_features_def date_add_def Let_def split: sum.splits if_splits)

lemma day_features_ok:
  assumes "year (add_days start i) \<le> 9999"
    and "truediv (dict_get totals (month (add_days start i)) (PyInt 0)) mx = Inr p"
  shows "\<exists>f. day_features start totals mx trips i = Inr (add_days start i, f)
           \<and> Coach_Pressure f = p"
  using assms by (simp add: day_features_def date_add_def Let_def)

lemma calendar_loop_Inr_D:
  "calendar_loop body idx acc = Inr out \<Longrightarrow> i \<in> set idx \<Longrightarrow> \<exists>df. body i = Inr df"
  by (induction idx arbitrary: acc) (auto split: sum.splits)

lemma datetime_jan1:
  "1 \<le> y \<Longrightarrow> y \<le> 9999 \<Longrightarrow> datetime y 1 1 = Inr \<lparr>year = y, month = 1, day = 1\<rparr>"
  by (simp add: datetime_def days_in_month_def)

lemma build_calendar_rows:
  assumes y: "1 \<le> y" "y \<le> 9999"
    and mx: "py_max (map snd totals) = Inr mx"
    and dv: "\<And>m. \<exists>p. truediv (dict_get totals m (PyInt 0)) mx = Inr p"
  shows "build_calendar y totals trips =
     Inr (map (\<lambda>i. calendar_row_of
                  (projr (day_features \<lparr>year = y, month = 1, day = 1\<rparr> totals mx trips i)))
            [0..<(if isleap y then 366 else 365)])"
proof -
  let ?start = "\<lparr>year = y, month = 1, day = 1\<rparr>"
  let ?n = "if isleap y then 366 else 365"
  have ok: "\<exists>df. day_features ?start totals mx trips i = Inr df" if "i \<in> set [0..<?n]" for i
  proof -
    from that have "i < ?n"
      by (simp split: if_splits)
    then have "year (add_days ?start i) = y"
      by (rule add_days_in_year)
    with y have "year (add_days ?start i) \<le> 9999"
      by simp
    moreover obtain p where "truediv (dict_get totals (month (add_days ?start i)) (PyInt 0)) mx = Inr p"
      using dv by blast
    ultimately show ?thesis
      using day_features_ok by blast
  qed
  have "calendar_loop (day_features ?start totals mx trips) [0..<?n] []
      = Inr ([] @ map (\<lambda>i. calendar_row_of (projr (day_features ?start totals mx trips i))) [0..<?n])"
    by (rule calendar_loop_ok) (rule ok)
  then show ?thesis
    by (simp only: build_calendar_def mx datetime_jan1[OF y] Let_def sum.case append_Nil)
qed

lemma build_calendar_Inr_D:
  assumes "build_calendar y totals trips = Inr rows"
  shows "\<exists>mx. py_max (map snd totals) = Inr mx
           \<and> length rows = (if isleap y then 366 else 365)
           \<and> (\<forall>i < length rows.
                 \<exists>df. day_features \<lparr>year = y, month = 1, day = 1\<rparr> totals mx trips i = Inr df
                    \<and> rows ! i = calendar_row_of df)"
proof -
  let ?start = "\<lparr>year = y, month = 1, day = 1\<rparr>"
  let ?n = "if isleap y then 366 else 365"
  from assms obtain mx where mx: "py_max (map snd totals) = Inr mx"
    by (auto simp add: build_calendar_def split: sum.splits)
  from assms mx have dt: "datetime y 1 1 = Inr ?start"
    by (auto simp add: build_calendar_def datetime_def split: sum.splits if_splits)
  from assms have loop: "calendar_loop (day_features ?start totals mx trips) [0..<?n] [] = Inr rows"
    by (simp only: build_calendar_def mx dt Let_def sum.case)
  have ok: "\<exists>df. day_features ?start totals mx trips i = Inr df" if "i \<in> set [0..<?n]" for i
    using loop that by (rule calendar_loop_Inr_D)
  have "calendar_loop (day_features ?start totals mx trips) [0..<?n] []
      = Inr ([] @ map (\<lambda>i. calendar_row_of (projr (day_features ?start totals mx trips i))) [0..<?n])"
    by (rule calendar_loop_ok) (rule ok)
  with loop have rows: "rows = map (\<lambda>i. calendar_row_of (projr (day_features ?start totals mx trips i))) [0..<?n]"
    by simp
  have len: "length rows = ?n"
    by (simp add: rows)
  have "\<exists>df. day_features ?start totals mx trips i = Inr df \<and> rows ! i = calendar_row_of df"
    if "i < length rows" for i
  proof -
    from that len have i: "i < ?n" by simp
    then obtain df where df: "day_features ?start totals mx trips i = Inr df"
      using ok[of i] by (auto split: if_splits)
    have "rows ! i = calendar_row_of (projr (day_features ?start totals mx trips i))"
      using i unfolding rows by (simp split: if_splits)
    with df show ?thesis by simp
  qed
  with mx len show ?thesis by blast
qed

lemma last_year_dates: "last (year_dates y) = \<lparr>year = y, month = 12, day = 31\<rparr>"
proof -
  have "[1..<13] = [1..<12] @ [12::nat]"
    using upt_Suc_append[of 1 12] by simp
  then have "year_dates y = concat (map (month_dates y) [1..<12]) @ month_dates y 12"
    by (simp only: year_dates_def map_append concat_append list.map concat.simps append_Nil2)
  moreover have "month_dates y 12 = map (\<lambda>d. \<lparr>year = y, month = 12, day = d\<rparr>) [1..<31] @ [\<lparr>year = y, month = 12, day = 31\<rparr>]"
    using upt_Suc_append[of 1 31] by (simp add: month_dates_def days_in_month_def)
  ultimately show ?thesis
    by (simp only: last_appendR last_snoc not_Cons_self2 append_is_Nil_conv simp_thms)
qed

lemma build_calendar_valid:
  assumes y: "1 \<le> y" "y \<le> 9999"
    and mx: "py_max (map snd totals) = Inr mx"
    and dv: "\<And>m. \<exists>p. truediv (dict_get totals m (PyInt 0)) mx = Inr p"
  shows "\<exists>rows. build_calendar y totals trips = Inr rows
     \<and> length rows = (if isleap y then 366 else 365)
     \<and> map Full_Date rows = year_dates y"
proof -
  let ?start = "\<lparr>year = y, month = 1, day = 1\<rparr>"
  let ?n = "if isleap y then 366 else 365"
  let ?rows = "map (\<lambda>i. calendar_row_of (projr (day_features ?start totals mx trips i))) [0..<?n]"
  have b: "build_calendar y totals trips = Inr ?rows"
    using y mx dv by (rule build_calendar_rows)
  then obtain mx' where mx': "py_max (map snd totals) = Inr mx'"
    and all: "\<forall>i < length ?rows.
                 \<exists>df. day_features ?start totals mx' trips i = Inr df \<and> ?rows ! i = calendar_row_of df"
    using build_calendar_Inr_D[OF b] by blast
  have len: "length ?rows = ?n"
    by simp
  have "map Full_Date ?rows = map (add_days ?start) [0..<?n]"
  proof (rule nth_equalityI)
    show "length (map Full_Date ?rows) = length (map (add_days ?start) [0..<?n])"
      by simp
  next
    fix i assume "i < length (map Full_Date ?rows)"
    then have i: "i < length ?rows" by simp
    then obtain df where df: "day_features ?start totals mx' trips i = Inr df"
      and r: "?rows ! i = calendar_row_of df"
      using all by blast
    have "Full_Date (?rows ! i) = add_days ?start i"
      by (simp only: r Full_Date_calendar_row_of day_features_date[OF df])
    moreover have "map Full_Date ?rows ! i = Full_Date (?rows ! i)"
      using i by (rule nth_map)
    moreover have "map (add_days ?start) [0..<?n] ! i = add_days ?start i"
      using i by (simp split: if_splits)
    ultimately show "map Full_Date ?rows ! i = map (add_days ?start) [0..<?n] ! i"
      by simp
  qed
  then have "map Full_Date ?rows = year_dates y"
    by (simp only: year_run)
  with b len show ?thesis
    by blast
qed

section \<open>Properties of the calendar builder\<close>

text \<open>
  Claim C4. For every target year from 1 to 9999 (the years 2020 to 2100 of the
  front-end are among them), every monthly pressure map with at least one positive
  total and every list of trips, \<^verbatim>\<open>build_calendar\<close> returns 366 rows when the year
  is a leap year and 365 rows otherwise. The \<^verbatim>\<open>Full Date\<close> values of the rows are
  the days of that year in calendar order: the first is January 1, the last is
  December 31, and each row's date is the day after the date of the row before it.
\<close>

theorem build_calendar_one_row_per_day:
  assumes "1 \<le> y" and "y \<le> 9999"
    and "\<exists>v \<in> set (map snd totals). 0 < num_val v"
  shows "\<exists>rows. build_calendar y totals trips = Inr rows
     \<and> length rows = (if isleap y then 366 else 365)
     \<and> map Full_Date rows = year_dates y
     \<and> Full_Date (hd rows) = \<lparr>year = y, month = 1, day = 1\<rparr>
     \<and> Full_Date (last rows) = \<lparr>year = y, month = 12, day = 31\<rparr>
     \<and> (\<forall>i. Suc i < length rows \<longrightarrow>
            Full_Date (rows ! Suc i) = next_day (Full_Date (rows ! i)))"
proof -
  let ?n = "if isleap y then 366 else 365"
  let ?start = "\<lparr>year = y, month = 1, day = 1\<rparr>"
  from assms(3) obtain mx where mx: "py_max (map snd totals) = Inr mx" and pos: "0 < num_val mx"
    using py_max_positive by blast
  have dv: "\<exists>p. truediv (dict_get totals m (PyInt 0)) mx = Inr p" for m
    using pos by (simp add: truediv_nonzero)
  obtain rows where b: "build_calendar y totals trips = Inr rows"
    and len: "length rows = ?n"
    and dates: "map Full_Date rows = year_dates y"
    using build_calendar_valid[OF assms(1,2) mx dv] by blast
  have nth: "Full_Date (rows ! i) = add_days ?start i" if "i < length rows" for i
  proof -
    have "Full_Date (rows ! i) = map Full_Date rows ! i"
      using that by simp
    also have "\<dots> = add_days ?start i"
      using that len by (simp only: dates year_dates_nth)
    finally show ?thesis .
  qed
  have ne: "rows \<noteq> []"
    using len by (auto split: if_splits)
  have first: "Full_Date (hd rows) = ?start"
    using nth[of 0] ne by (simp add: hd_conv_nth)
  have "Full_Date (last rows) = last (map Full_Date rows)"
    using ne by (simp add: last_map)
  then have final: "Full_Date (last rows) = \<lparr>year = y, month = 12, day = 31\<rparr>"
    by (simp only: dates last_year_dates)
  have succ: "Full_Date (rows ! Suc i) = next_day (Full_Date (rows ! i))"
    if "Suc i < length rows" for i
    using that nth[of i] nth[of "Suc i"] by (simp only: add_days_Suc Suc_lessD)
  from b len dates first final succ show ?thesis
    by blast
qed

theorem build_calendar_one_row_per_day_witness:
  "\<exists>rows. build_calendar 2024 [(1, NpInt64 40), (7, NpInt64 90)] [] = Inr rows
     \<and> length rows = 366
     \<and> Full_Date (hd rows) = \<lparr>year = 2024, month = 1, day = 1\<rparr>
     \<and> Full_Date (last rows) = \<lparr>year = 2024, month = 12, day = 31\<rparr>"
proof -
  have leap: "isleap 2024"
    by (simp add: isleap_def)
  have pos: "\<exists>v \<in> set (map snd [(1, NpInt64 40), (7 :: nat, NpInt64 90)]). 0 < num_val v"
    by simp
  have y: "(1 :: int) \<le> 2024" "(2024 :: int) \<le> 9999"
    by simp_all
  from build_calendar_one_row_per_day [OF y pos, of "[]"] leap show ?thesis
    by auto
qed

lemma round2_zero: "round2 0 = 0"
  by (simp add: round2_def rint_def)

lemma day_features_no_trips:
  assumes "day_features start totals mx trips i = Inr (dt, f)"
    and "\<forall>t \<in> set trips. Date t \<noteq> dt"
  shows "Trips_Scheduled f = 0 \<and> Avg_Complexity f = 0"
proof -
  from assms(2) have "filter (\<lambda>t. Date t = dt) trips = []"
    by (simp add: filter_empty_conv)
  with assms(1) show ?thesis
    by (auto simp add: day_features_def Let_def split: sum.splits)
qed

text \<open>
  Claim C9. In a calendar that \<^verbatim>\<open>build_calendar\<close> returns, every row whose date no
  trip of the dispatch list has (every row, when the list is empty) was built from a
  feature record with trip count 0 and average complexity exactly 0, and shows
  \<^verbatim>\<open>Trips Scheduled\<close> 0 and \<^verbatim>\<open>Avg Trip Complexity\<close> 0: the mean of an empty
  column is never taken.
\<close>

theorem no_trips_zero_count_zero_average:
  assumes "build_calendar y totals trips = Inr rows"
    and "i < length rows"
    and "\<forall>t \<in> set trips. Date t \<noteq> Full_Date (rows ! i)"
  shows "Row_Trips_Scheduled (rows ! i) = 0
     \<and> Avg_Trip_Complexity (rows ! i) = 0
     \<and> (\<exists>mx f. day_features \<lparr>year = y, month = 1, day = 1\<rparr> totals mx trips i
                   = Inr (Full_Date (rows ! i), f)
              \<and> rows ! i = calendar_row_of (Full_Date (rows ! i), f)
              \<and> Trips_Scheduled f = 0
              \<and> Avg_Complexity f = 0)"
proof -
  from build_calendar_Inr_D[OF assms(1)] assms(2)
  obtain mx df where df: "day_features \<lparr>year = y, month = 1, day = 1\<rparr> totals mx trips i = Inr df"
    and r: "rows ! i = calendar_row_of df"
    by blast
  obtain dt f where p: "df = (dt, f)"
    by (cases df)
  have fd: "Full_Date (rows ! i) = dt"
    by (simp add: r p Full_Date_calendar_row_of)
  have z: "Trips_Scheduled f = 0 \<and> Avg_Complexity f = 0"
    using df assms(3) unfolding p fd by (rule day_features_no_trips)
  then have "Row_Trips_Scheduled (rows ! i) = 0 \<and> Avg_Trip_Complexity (rows ! i) = 0"
    by (simp add: r p calendar_row_of_def Let_def round2_zero)
  with z df r show ?thesis
    unfolding p fd by blast
qed

theorem no_trips_zero_count_zero_average_witness:
  "\<exists>rows. build_calendar 2023 [(1, PyInt 100), (2, PyInt 50)]
             [\<lparr>Date = \<lparr>year = 2023, month = 1, day = 6\<rparr>, Trip_Complexity = 1\<rparr>] = Inr rows
     \<and> Full_Date (rows ! 0) = \<lparr>year = 2023, month = 1, day = 1\<rparr>
     \<and> Row_Trips_Scheduled (rows ! 0) = 0
     \<and> Avg_Trip_Complexity (rows ! 0) = 0"
proof -
  let ?totals = "[(1 :: nat, PyInt 100), (2, PyInt 50)]"
  let ?trips = "[\<lparr>Date = \<lparr>year = 2023, month = 1, day = 6\<rparr>, Trip_Complexity = 1\<rparr>]"
  have mx: "py_max (map snd ?totals) = Inr (PyInt 100)"
    by (simp add: py_max_def)
  have dv: "\<exists>p. truediv (dict_get ?totals m (PyInt 0)) (PyInt 100) = Inr p" for m
    by (simp add: truediv_nonzero)
  have y: "(1 :: int) \<le> 2023" "(2023 :: int) \<le> 9999"
    by simp_all
  obtain rows where b: "build_calendar 2023 ?totals ?trips = Inr rows"
    and len: "length rows = (if isleap 2023 then 366 else 365)"
    and dates: "map Full_Date rows = year_dates 2023"
    using build_calendar_valid[OF y mx dv, of ?trips] by blast
  have i: "0 < length rows"
    using len by (simp split: if_splits)
  have "Full_Date (rows ! 0) = map Full_Date rows ! 0"
    using i by simp
  also have "\<dots> = add_days \<lparr>year = 2023, month = 1, day = 1\<rparr> 0"
    unfolding dates by (rule year_dates_nth) (simp split: if_splits)
  finally have fd: "Full_Date (rows ! 0) = \<lparr>year = 2023, month = 1, day = 1\<rparr>"
    by simp
  have none: "\<forall>t \<in> set ?trips. Date t \<noteq> Full_Date (rows ! 0)"
    by (simp add: fd)
  from no_trips_zero_count_zero_average [OF b i none] b fd show ?thesis
    by blast
qed

lemma upt_zero_Cons: "0 < n \<Longrightarrow> [0..<n] = 0 # [1..<n]"
  by (simp add: upt_conv_Cons)

lemma build_calendar_python_zeros:
  assumes "totals \<noteq> []" and "\<forall>v \<in> set (map snd totals). v = PyInt 0"
  shows "build_calendar y totals trips
           = Inl (if 1 \<le> y \<and> y \<le> 9999 then ZeroDivisionError else ValueError)"
proof -
  let ?start = "\<lparr>year = y, month = 1, day = 1\<rparr>"
  let ?n = "if isleap y then 366 else 365"
  obtain kv rest where t: "totals = kv # rest"
    using assms(1) by (cases totals) auto
  have "max_from (snd kv) (map snd rest) = snd kv"
    using assms(2) by (intro max_from_first) (auto simp add: t)
  moreover have "snd kv = PyInt 0"
    using assms(2) by (simp add: t)
  ultimately have mx: "py_max (map snd totals) = Inr (PyInt 0)"
    by (simp add: py_max_def t)
  show ?thesis
  proof (cases "1 \<le> y \<and> y \<le> 9999")
    case False
    then have "datetime y 1 1 = Inl ValueError"
      by (auto simp add: datetime_def)
    with False show ?thesis
      by (simp add: build_calendar_def mx)
  next
    case True
    then have dt: "datetime y 1 1 = Inr ?start"
      by (intro datetime_jan1) simp_all
    have "dict_get totals 1 (PyInt 0) = PyInt 0"
      using assms(2) by (intro dict_get_const) blast
    then have "day_features ?start totals (PyInt 0) trips 0 = Inl ZeroDivisionError"
      using True by (simp add: day_features_def date_add_def)
    moreover have "[0..<?n] = 0 # [1..<?n]"
      by (rule upt_zero_Cons) simp
    ultimately have "calendar_loop (day_features ?start totals (PyInt 0) trips) [0..<?n] []
        = Inl ZeroDivisionError"
      by (simp only: calendar_loop.simps sum.case)
    with True show ?thesis
      by (simp only: build_calendar_def mx dt Let_def sum.case if_True simp_thms)
  qed
qed

lemma build_calendar_finite_pressure:
  assumes b: "build_calendar y totals trips = Inr rows"
    and mx: "py_max (map snd totals) = Inr mx"
    and nz: "num_val mx \<noteq> 0"
    and i: "i < length rows"
  shows "\<exists>q. Row_Coach_Pressure (rows ! i) = Fin q"
proof -
  from build_calendar_Inr_D[OF b] i mx
  obtain df where df: "day_features \<lparr>year = y, month = 1, day = 1\<rparr> totals mx trips i = Inr df"
    and r: "rows ! i = calendar_row_of df"
    by auto
  from df nz have "\<exists>q. Coach_Pressure (snd df) = Fin q"
    by (auto simp add: day_features_def Let_def truediv_nonzero split: sum.splits)
  then show ?thesis
    by (auto simp add: r calendar_row_of_def Let_def)
qed

text \<open>
  Claim C8, as the code has it. With an empty monthly pressure map
  \<^verbatim>\<open>build_calendar\<close> fails before any row is built (\<^verbatim>\<open>max\<close> of an empty sequence
  raises). With a non-empty map whose values are all the Python integer 0 it fails
  too: in a valid year the division of the first day raises
  \<^verbatim>\<open>ZeroDivisionError\<close>. With a map that has at least one positive value the
  division succeeds for every day of a valid year: the calendar is returned and the
  coach pressure of every row is a finite number. The claim's failure for every
  all-zero map does not hold for NumPy integers, see the counterexample below.
\<close>

theorem build_calendar_pressure_division:
  "build_calendar y [] trips = Inl ValueError
   \<and> (totals \<noteq> [] \<and> (\<forall>v \<in> set (map snd totals). v = PyInt 0) \<longrightarrow>
        build_calendar y totals trips
          = Inl (if 1 \<le> y \<and> y \<le> 9999 then ZeroDivisionError else ValueError))
   \<and> (1 \<le> y \<and> y \<le> 9999 \<and> (\<exists>v \<in> set (map snd totals). 0 < num_val v) \<longrightarrow>
        (\<exists>rows. build_calendar y totals trips = Inr rows
           \<and> length rows = (if isleap y then 366 else 365)
           \<and> (\<forall>i < length rows. \<exists>q. Row_Coach_Pressure (rows ! i) = Fin q)))"
proof (intro conjI impI)
  show "build_calendar y [] trips = Inl ValueError"
    by (simp add: build_calendar_def py_max_def)
next
  assume "totals \<noteq> [] \<and> (\<forall>v \<in> set (map snd totals). v = PyInt 0)"
  then show "build_calendar y totals trips
      = Inl (if 1 \<le> y \<and> y \<le> 9999 then ZeroDivisionError else ValueError)"
    using build_calendar_python_zeros by blast
next
  assume a: "1 \<le> y \<and> y \<le> 9999 \<and> (\<exists>v \<in> set (map snd totals). 0 < num_val v)"
  then obtain mx where mx: "py_max (map snd totals) = Inr mx" and pos: "0 < num_val mx"
    using py_max_positive by blast
  have dv: "\<exists>p. truediv (dict_get totals m (PyInt 0)) mx = Inr p" for m
    using pos by (simp add: truediv_nonzero)
  from a have y: "1 \<le> y" "y \<le> 9999"
    by simp_all
  obtain rows where b: "build_calendar y totals trips = Inr rows"
    and len: "length rows = (if isleap y then 366 else 365)"
    using build_calendar_valid[OF y mx dv] by blast
  have "\<forall>i < length rows. \<exists>q. Row_Coach_Pressure (rows ! i) = Fin q"
    using build_calendar_finite_pressure[OF b mx] pos by simp
  with b len show "\<exists>rows. build_calendar y totals trips = Inr rows
           \<and> length rows = (if isleap y then 366 else 365)
           \<and> (\<forall>i < length rows. \<exists>q. Row_Coach_Pressure (rows ! i) = Fin q)"
    by blast
qed

theorem build_calendar_pressure_division_witness:
  "build_calendar 2023 [(1, PyInt 0), (2, PyInt 0)] [] = Inl ZeroDivisionError
   \<and> (\<exists>rows. build_calendar 2023 [(1, NpInt64 12), (2, NpInt64 8)] [] = Inr rows
         \<and> length rows = 365
         \<and> (\<exists>q. Row_Coach_Pressure (rows ! 0) = Fin q))"
proof -
  have leap: "\<not> isleap 2023"
    by (simp add: isleap_def)
  have "build_calendar 2023 [(1, PyInt 0), (2, PyInt 0)] [] = Inl ZeroDivisionError"
    using build_calendar_pressure_division
            [of 2023 "[]" "[(1, PyInt 0), (2, PyInt 0)]"]
    by simp
  moreover have "\<exists>rows. build_calendar 2023 [(1, NpInt64 12), (2, NpInt64 8)] [] = Inr rows
         \<and> length rows = 365
         \<and> (\<exists>q. Row_Coach_Pressure (rows ! 0) = Fin q)"
    using build_calendar_pressure_division
            [of 2023 "[]" "[(1, NpInt64 12), (2, NpInt64 8)]"] leap
    by auto
  ultimately show ?thesis
    by blast
qed

text \<open>
  The counterexample to claim C8 as stated: the all-zero map that
  \<^verbatim>\<open>extract_monthly_totals\<close> returns for a table without data rows holds NumPy
  integers. Dividing by a NumPy zero raises nothing, so \<^verbatim>\<open>build_calendar\<close> does not
  fail: it returns the 365 rows of 2023, with NaN as coach pressure.
\<close>

theorem build_calendar_numpy_zeros_counterexample:
  "\<not> isl (build_calendar 2023 [(1, NpInt64 0), (2, NpInt64 0), (3, NpInt64 0)] [])
   \<and> length (projr (build_calendar 2023 [(1, NpInt64 0), (2, NpInt64 0), (3, NpInt64 0)] []))
       = 365
   \<and> Row_Coach_Pressure
        (projr (build_calendar 2023 [(1, NpInt64 0), (2, NpInt64 0), (3, NpInt64 0)] []) ! 0)
       = NaN"
proof -
  let ?totals = "[(1 :: nat, NpInt64 0), (2, NpInt64 0), (3, NpInt64 0)]"
  let ?start = "\<lparr>year = 2023, month = 1, day = 1\<rparr>"
  have leap: "\<not> isleap 2023"
    by (simp add: isleap_def)
  have mx: "py_max (map snd ?totals) = Inr (NpInt64 0)"
    by (simp add: py_max_def)
  have dv: "\<exists>p. truediv (dict_get ?totals m (PyInt 0)) (NpInt64 0) = Inr p" for m
    by (simp only: truediv_numpy) blast
  have y: "(1 :: int) \<le> 2023" "(2023 :: int) \<le> 9999"
    by simp_all
  have b: "build_calendar 2023 ?totals [] =
     Inr (map (\<lambda>i. calendar_row_of (projr (day_features ?start ?totals (NpInt64 0) [] i)))
            [0..<365])"
    using build_calendar_rows[OF y mx dv, of "[]"] leap by simp
  have d0: "day_features ?start ?totals (NpInt64 0) [] 0
      = Inr (?start, \<lparr>Coach_Pressure = NaN, Weekday = strftime_A ?start,
                      Season = get_season 1, Trips_Scheduled = 0, Avg_Complexity = 0\<rparr>)"
    by (simp add: day_features_def date_add_def dict_get_def)
  have "map (\<lambda>i. calendar_row_of (projr (day_features ?start ?totals (NpInt64 0) [] i)))
            [0..<365] ! 0
      = calendar_row_of (projr (day_features ?start ?totals (NpInt64 0) [] 0))"
    by (subst nth_map) simp_all
  then have p0: "Row_Coach_Pressure
      (map (\<lambda>i. calendar_row_of (projr (day_features ?start ?totals (NpInt64 0) [] i)))
            [0..<365] ! 0) = NaN"
    by (simp only: d0 sum.sel calendar_row_of_def Let_def fst_conv snd_conv
          calendar_row.simps features.simps round2_float.simps)
  have len: "length (map (\<lambda>i. calendar_row_of
        (projr (day_features ?start ?totals (NpInt64 0) [] i))) [0..<365]) = 365"
    by simp
  show ?thesis
    by (simp only: b sum.sel sum.disc len p0 simp_thms)
qed

text \<open>
  Claim C1. For the feature record with coach pressure 1.0, weekday Friday, season
  Winter, one trip and average complexity 1, the score is 6 (3 for the pressure, 1
  for Friday, 1 for Winter, 0 for one trip, 1 for the complexity) and the band is
  \<^verbatim>\<open>C+ (45%)\<close>. That record is the one \<^verbatim>\<open>build_calendar\<close> builds for
  2023-01-06 from monthly totals with maximum 100 in January and a single trip of
  complexity 1 on that day, and the row of that day carries the band.
\<close>

theorem friday_winter_scenario_band:
  "band_score \<lparr>Coach_Pressure = Fin 1, Weekday = ''Friday'', Season = ''Winter'',
                Trips_Scheduled = 1, Avg_Complexity = 1\<rparr> = 6
   \<and> classify_band \<lparr>Coach_Pressure = Fin 1, Weekday = ''Friday'', Season = ''Winter'',
                Trips_Scheduled = 1, Avg_Complexity = 1\<rparr>
       = (''C+ (45%)'', ''Very active day with high potential'')
   \<and> day_features \<lparr>year = 2023, month = 1, day = 1\<rparr>
        [(1, PyInt 100), (2, PyInt 50), (3, PyInt 60), (4, PyInt 70), (5, PyInt 75),
         (6, PyInt 90), (7, PyInt 95), (8, PyInt 85), (9, PyInt 65), (10, PyInt 55),
         (11, PyInt 45), (12, PyInt 80)]
        (PyInt 100)
        [\<lparr>Date = \<lparr>year = 2023, month = 1, day = 6\<rparr>, Trip_Complexity = 1\<rparr>] 5
       = Inr (\<lparr>year = 2023, month = 1, day = 6\<rparr>,
              \<lparr>Coach_Pressure = Fin 1, Weekday = ''Friday'', Season = ''Winter'',
               Trips_Scheduled = 1, Avg_Complexity = 1\<rparr>)
   \<and> (\<exists>rows. build_calendar 2023
        [(1, PyInt 100), (2, PyInt 50), (3, PyInt 60), (4, PyInt 70), (5, PyInt 75),
         (6, PyInt 90), (7, PyInt 95), (8, PyInt 85), (9, PyInt 65), (10, PyInt 55),
         (11, PyInt 45), (12, PyInt 80)]
        [\<lparr>Date = \<lparr>year = 2023, month = 1, day = 6\<rparr>, Trip_Complexity = 1\<rparr>] = Inr rows
       \<and> Full_Date (rows ! 5) = \<lparr>year = 2023, month = 1, day = 6\<rparr>
       \<and> Row_Weekday (rows ! 5) = ''Friday''
       \<and> Suggested_Band (rows ! 5) = ''C+ (45%)'')"
proof -
  let ?f = "\<lparr>Coach_Pressure = Fin 1, Weekday = ''Friday'', Season = ''Winter'',
             Trips_Scheduled = 1, Avg_Complexity = 1\<rparr>"
  let ?totals = "[(1 :: nat, PyInt 100), (2, PyInt 50), (3, PyInt 60), (4, PyInt 70),
         (5, PyInt 75), (6, PyInt 90), (7, PyInt 95), (8, PyInt 85), (9, PyInt 65),
         (10, PyInt 55), (11, PyInt 45), (12, PyInt 80)]"
  let ?trips = "[\<lparr>Date = \<lparr>year = 2023, month = 1, day = 6\<rparr>, Trip_Complexity = 1\<rparr>]"
  let ?start = "\<lparr>year = 2023, month = 1, day = 1\<rparr>"
  let ?d6 = "\<lparr>year = 2023, month = 1, day = 6\<rparr>"
  have score: "band_score ?f = 6"
    by (simp add: band_score_def)
  have band: "classify_band ?f = (''C+ (45%)'', ''Very active day with high potential'')"
    by (simp add: classify_band_def band_score_def)
  have feat: "day_features ?start ?totals (PyInt 100) ?trips 5 = Inr (?d6, ?f)"
    by (simp add: day_features_def date_add_def eval_nat_numeral next_day_def
          days_in_month_def dict_get_def get_season_def mean_def strftime_A_def weekday_def
          toordinal_def days_before_year_def days_before_month_def day_names_def)
  have mx: "py_max (map snd ?totals) = Inr (PyInt 100)"
    by (simp add: py_max_def)
  have dv: "\<exists>p. truediv (dict_get ?totals m (PyInt 0)) (PyInt 100) = Inr p" for m
    by (simp add: truediv_nonzero)
  have y: "(1 :: int) \<le> 2023" "(2023 :: int) \<le> 9999"
    by simp_all
  have leap: "\<not> isleap 2023"
    by (simp add: isleap_def)
  let ?rows = "map (\<lambda>i. calendar_row_of (projr (day_features ?start ?totals (PyInt 100) ?trips i)))
            [0..<365]"
  have b: "build_calendar 2023 ?totals ?trips = Inr ?rows"
    using build_calendar_rows[OF y mx dv, of ?trips] leap by simp
  have "?rows ! 5 = calendar_row_of (projr (day_features ?start ?totals (PyInt 100) ?trips 5))"
    by (subst nth_map) simp_all
  then have r5: "?rows ! 5 = calendar_row_of (?d6, ?f)"
    by (simp only: feat sum.sel)
  have "Full_Date (calendar_row_of (?d6, ?f)) = ?d6
      \<and> Row_Weekday (calendar_row_of (?d6, ?f)) = ''Friday''
      \<and> Suggested_Band (calendar_row_of (?d6, ?f)) = ''C+ (45%)''"
    by (simp only: calendar_row_of_def Let_def fst_conv snd_conv band
          calendar_row.simps features.simps simp_thms)
  then have "Full_Date (?rows ! 5) = ?d6 \<and> Row_Weekday (?rows ! 5) = ''Friday''
      \<and> Suggested_Band (?rows ! 5) = ''C+ (45%)''"
    by (simp only: r5)
  with b have "\<exists>rows. build_calendar 2023 ?totals ?trips = Inr rows
       \<and> Full_Date (rows ! 5) = ?d6
       \<and> Row_Weekday (rows ! 5) = ''Friday''
       \<and> Suggested_Band (rows ! 5) = ''C+ (45%)''"
    by blast
  with score band feat show ?thesis
    by (intro conjI)
qed

section \<open>Properties of the monthly pressure extractor\<close>

text \<open>
  Claim C7. For every capacity-summary table with fewer than 5 rows,
  \<^verbatim>\<open>extract_monthly_totals\<close> fails: nothing is left after the four metadata rows,
  so reading the header row raises (an \<^verbatim>\<open>IndexError\<close>, the malformed-input error of
  the specification), and no monthly totals are returned.
\<close>

theorem extract_monthly_totals_short_table:
  assumes "length tbn_df < 5"
  shows "extract_monthly_totals tbn_df = Inl IndexError"
  using assms by (simp add: extract_monthly_totals_def)

theorem extract_monthly_totals_short_table_witness:
  "extract_monthly_totals
     [[Text ''Capacity summary''], [Blank], [Text ''January''], [Text ''12'']]
   = Inl IndexError"
  using extract_monthly_totals_short_table
          [of "[[Text ''Capacity summary''], [Blank], [Text ''January''], [Text ''12'']]"]
  by simp

lemma length_column_positions: "length (column_positions header name) = count_list header (Text name)"
proof (induction header rule: rev_induct)
  case Nil
  then show ?case by (simp add: column_positions_def)
next
  case (snoc c header)
  have "filter (\<lambda>j. (header @ [c]) ! j = Text name) [0..<length header]
      = filter (\<lambda>j. header ! j = Text name) [0..<length header]"
    by (rule filter_cong) (simp_all add: nth_append)
  with snoc show ?case
    by (simp add: column_positions_def)
qed

lemma single_column:
  assumes "Text name \<in> set header" and "count_list header (Text name) \<le> 1"
  shows "\<exists>j. column_positions header name = [j]"
proof -
  from assms(1) have "count_list header (Text name) \<noteq> 0"
    by (simp add: count_list_0_iff)
  with assms(2) have "length (column_positions header name) = 1"
    by (simp add: length_column_positions)
  then show ?thesis
    by (cases "column_positions header name") auto
qed

lemma month_total_no_data:
  assumes "Text name \<in> set header" and "count_list header (Text name) \<le> 1"
  shows "month_total header [] name = Inr (NpInt64 0)"
proof -
  obtain j where "column_positions header name = [j]"
    using single_column[OF assms] by blast
  then show ?thesis
    by (simp add: month_total_def wrap64_def)
qed

lemma totals_loop_no_data:
  assumes "\<forall>(name, col) \<in> set months. count_list header (Text name) \<le> 1"
  shows "totals_loop header [] months acc
     = Inr (acc @ map (\<lambda>(name, col). (col, NpInt64 0))
                   (filter (\<lambda>(name, col). Text name \<in> set header) months))"
  using assms
proof (induction months arbitrary: acc)
  case Nil
  then show ?case by simp
next
  case (Cons m months)
  obtain name col where m: "m = (name, col)"
    by (cases m)
  from Cons.prems have one: "count_list header (Text name) \<le> 1"
    and rest: "\<forall>(name, col) \<in> set months. count_list header (Text name) \<le> 1"
    by (simp_all add: m)
  show ?case
  proof (cases "Text name \<in> set header")
    case True
    then have "month_total header [] name = Inr (NpInt64 0)"
      using one by (rule month_total_no_data)
    with True show ?thesis
      by (simp add: m Cons.IH[OF rest])
  next
    case False
    then show ?thesis
      by (simp add: m Cons.IH[OF rest])
  qed
qed

text \<open>
  Claim C10, as the code has it. For every capacity-summary table with exactly 5
  rows (four metadata rows and the header row, no data row) in which no month name
  labels more than one column, \<^verbatim>\<open>extract_monthly_totals\<close> succeeds, and the map it
  returns has, for every month name among the header cells and for no other month,
  the month's number with total 0 (a NumPy integer, the sum of no cell).
\<close>

theorem extract_monthly_totals_header_only:
  assumes "length tbn_df = 5"
    and "\<forall>(name, col) \<in> set month_map. count_list (tbn_df ! 4) (Text name) \<le> 1"
  shows "extract_monthly_totals tbn_df
     = Inr (map (\<lambda>(name, col). (col, NpInt64 0))
              (filter (\<lambda>(name, col). Text name \<in> set (tbn_df ! 4)) month_map))"
proof -
  from assms(1) have "drop 4 tbn_df = [tbn_df ! 4]"
    by (simp add: Cons_nth_drop_Suc[symmetric])
  then show ?thesis
    using totals_loop_no_data[OF assms(2), of "[]"]
    by (simp add: extract_monthly_totals_def)
qed

theorem extract_monthly_totals_header_only_witness:
  "extract_monthly_totals
     [[Text ''TBN Summary'', Blank, Blank, Blank],
      [Blank, Blank, Blank, Blank],
      [Text ''Printed'', Obj ''2023'', Blank, Blank],
      [Blank, Blank, Blank, Blank],
      [Text ''Depot'', Text ''January'', Text ''March'', Blank]]
   = Inr [(1, NpInt64 0), (3, NpInt64 0)]"
proof -
  let ?t = "[[Text ''TBN Summary'', Blank, Blank, Blank],
      [Blank, Blank, Blank, Blank],
      [Text ''Printed'', Obj ''2023'', Blank, Blank],
      [Blank, Blank, Blank, Blank],
      [Text ''Depot'', Text ''January'', Text ''March'', Blank]]"
  have len: "length ?t = 5"
    by simp
  have one: "\<forall>(name, col) \<in> set month_map. count_list (?t ! 4) (Text name) \<le> 1"
    by (simp add: month_map_def)
  show ?thesis
    using extract_monthly_totals_header_only [OF len one]
    by (simp add: month_map_def)
qed

text \<open>
  The counterexample to claim C10 as stated: a table of exactly 5 rows whose header
  row names January twice. \<^verbatim>\<open>tbn_df['January']\<close> is then a DataFrame of two
  columns, which has no \<^verbatim>\<open>.str\<close> accessor, and the extraction fails.
\<close>

theorem extract_monthly_totals_duplicate_month_counterexample:
  "extract_monthly_totals
     [[Text ''TBN Summary'', Blank],
      [Blank, Blank],
      [Blank, Blank],
      [Blank, Blank],
      [Text ''January'', Text ''January'']]
   = Inl AttributeError"
  by (simp add: extract_monthly_totals_def month_map_def month_total_def column_positions_def)

section \<open>Properties of the dispatch normalizer\<close>

lemma starts_with_iff: "starts_with x t \<longleftrightarrow> (\<exists>after. t = x @ after)"
  by (induction x t rule: starts_with.induct) auto

lemma contains_iff: "contains x t \<longleftrightarrow> is_substring x t"
proof (induction t)
  case Nil
  then show ?case by (auto simp add: is_substring_def)
next
  case (Cons c t)
  have "is_substring x (c # t) \<longleftrightarrow> starts_with x (c # t) \<or> is_substring x t"
  proof
    assume "is_substring x (c # t)"
    then obtain before after where e: "c # t = before @ x @ after"
      by (auto simp add: is_substring_def)
    show "starts_with x (c # t) \<or> is_substring x t"
    proof (cases before)
      case Nil
      with e show ?thesis by (auto simp add: starts_with_iff)
    next
      case (Cons b bs)
      with e have "t = bs @ x @ after" by simp
      then show ?thesis by (auto simp add: is_substring_def)
    qed
  next
    assume "starts_with x (c # t) \<or> is_substring x t"
    then show "is_substring x (c # t)"
    proof
      assume "starts_with x (c # t)"
      then obtain after where "c # t = [] @ x @ after"
        by (auto simp add: starts_with_iff)
      then show ?thesis unfolding is_substring_def by blast
    next
      assume "is_substring x t"
      then obtain before after where "t = before @ x @ after"
        by (auto simp add: is_substring_def)
      then have "c # t = (c # before) @ x @ after" by simp
      then show ?thesis unfolding is_substring_def by blast
    qed
  qed
  with Cons show ?case by simp
qed

lemma is_substring_append:
  "is_substring x b \<Longrightarrow> is_substring x (a @ b @ c)"
proof -
  assume "is_substring x b"
  then obtain before after where "b = before @ x @ after"
    by (auto simp add: is_substring_def)
  then have "a @ b @ c = (a @ before) @ x @ (after @ c)"
    by simp
  then show ?thesis
    unfolding is_substring_def by blast
qed

lemma lower_append: "lower (a @ b) = lower a @ lower b"
  by (simp add: lower_def)

lemma starts_with_before_space:
  "CHR '' '' \<notin> set x \<Longrightarrow> starts_with x (a @ CHR '' '' # b) \<longleftrightarrow> starts_with x a"
  by (induction x a rule: starts_with.induct) auto

lemma contains_across_space:
  assumes "CHR '' '' \<notin> set x" and "x \<noteq> []"
  shows "contains x (a @ CHR '' '' # b) \<longleftrightarrow> contains x a \<or> contains x b"
proof (induction a)
  case Nil
  from assms show ?case
    by (cases x) auto
next
  case (Cons c a)
  have "starts_with x ((c # a) @ CHR '' '' # b) \<longleftrightarrow> starts_with x (c # a)"
    using assms(1) by (rule starts_with_before_space)
  with Cons show ?case
    by auto
qed

text \<open>
  Claim C6. The complexity of a dispatch row is computed from the lower-cased text
  of its \<^verbatim>\<open>Route Description\<close>, \<^verbatim>\<open>Destination\<close> and \<^verbatim>\<open>Group Name\<close> joined by
  spaces: 1 if one of nyc, manhattan, dc, downtown is a substring of it, else -1 if
  one of hershey, dorney, park, amusement is, else 0; the urban rule is tried first.
  A row with destination \<^verbatim>\<open>Downtown NYC Tour\<close> has complexity 1. A row with
  destination \<^verbatim>\<open>Hershey Park\<close> has complexity -1, its two other fields holding no
  urban keyword.
\<close>

theorem infer_complexity_keyword_rule:
  "infer_complexity cols row =
     (let text = lower (str_cell (series_get cols row ''Route Description'' (Text [])) @ '' ''
                        @ str_cell (series_get cols row ''Destination'' (Text [])) @ '' ''
                        @ str_cell (series_get cols row ''Group Name'' (Text [])))
      in if \<exists>k \<in> set [''nyc'', ''manhattan'', ''dc'', ''downtown'']. is_substring k text then 1
         else if \<exists>k \<in> set [''hershey'', ''dorney'', ''park'', ''amusement'']. is_substring k text
         then - 1
         else 0)
   \<and> (series_get cols row ''Destination'' (Text []) = Text ''Downtown NYC Tour''
        \<longrightarrow> infer_complexity cols row = 1)
   \<and> (series_get cols row ''Destination'' (Text []) = Text ''Hershey Park''
        \<and> \<not> (\<exists>k \<in> set [''nyc'', ''manhattan'', ''dc'', ''downtown''].
                 is_substring k
                   (lower (str_cell (series_get cols row ''Route Description'' (Text [])))))
        \<and> \<not> (\<exists>k \<in> set [''nyc'', ''manhattan'', ''dc'', ''downtown''].
                 is_substring k
                   (lower (str_cell (series_get cols row ''Group Name'' (Text [])))))
        \<longrightarrow> infer_complexity cols row = - 1)"
proof (intro conjI impI)
  let ?a = "str_cell (series_get cols row ''Route Description'' (Text []))"
  let ?b = "str_cell (series_get cols row ''Destination'' (Text []))"
  let ?c = "str_cell (series_get cols row ''Group Name'' (Text []))"
  let ?urban = "[''nyc'', ''manhattan'', ''dc'', ''downtown'']"
  let ?leisure = "[''hershey'', ''dorney'', ''park'', ''amusement'']"
  define blob where "blob = lower (?a @ '' '' @ ?b @ '' '' @ ?c)"
  have rule: "infer_complexity cols row =
     (if \<exists>k \<in> set ?urban. is_substring k blob then 1
      else if \<exists>k \<in> set ?leisure. is_substring k blob then - 1
      else 0)"
    unfolding blob_def
    by (simp add: infer_complexity_def Let_def contains_iff del: contains.simps)
  then show "infer_complexity cols row =
     (let text = lower (?a @ '' '' @ ?b @ '' '' @ ?c)
      in if \<exists>k \<in> set ?urban. is_substring k text then 1
         else if \<exists>k \<in> set ?leisure. is_substring k text then - 1
         else 0)"
    by (simp only: Let_def blob_def)
  have parts: "blob = lower ?a @ CHR '' '' # (lower ?b @ CHR '' '' # lower ?c)"
    by (simp add: blob_def lower_def lower_char_def)
  show "infer_complexity cols row = 1"
    if d: "series_get cols row ''Destination'' (Text []) = Text ''Downtown NYC Tour''"
  proof -
    have "contains ''downtown'' (lower ''Downtown NYC Tour'')"
      by (simp add: lower_def lower_char_def)
    then have "is_substring ''downtown'' (lower ?b)"
      by (simp only: contains_iff d str_cell.simps)
    then have "is_substring ''downtown'' ((lower ?a @ '' '') @ lower ?b @ (CHR '' '' # lower ?c))"
      by (rule is_substring_append)
    then have "is_substring ''downtown'' blob"
      by (simp only: parts append.simps append_assoc)
    then have "\<exists>k \<in> set ?urban. is_substring k blob"
      by (intro bexI[of _ "''downtown''"]) simp_all
    then show ?thesis
      by (simp only: rule if_True)
  qed
  show "infer_complexity cols row = - 1"
    if h: "series_get cols row ''Destination'' (Text []) = Text ''Hershey Park''
        \<and> \<not> (\<exists>k \<in> set ?urban. is_substring k (lower ?a))
        \<and> \<not> (\<exists>k \<in> set ?urban. is_substring k (lower ?c))"
  proof -
    have hp: "lower ?b = ''hershey'' @ CHR '' '' # ''park''"
      using h by (simp add: lower_def lower_char_def)
    have split: "contains x blob
        \<longleftrightarrow> contains x (lower ?a) \<or> contains x ''hershey'' \<or> contains x ''park''
              \<or> contains x (lower ?c)"
      if "CHR '' '' \<notin> set x" and "x \<noteq> []" for x
      by (simp only: parts hp contains_across_space[OF that] disj_assoc)
    have no: "\<not> is_substring k blob" if k: "k \<in> set ?urban" for k
    proof -
      from k have k1: "CHR '' '' \<notin> set k" and k2: "k \<noteq> []"
        and k3: "\<not> contains k ''hershey''" and k4: "\<not> contains k ''park''"
        by auto
      from k h have "\<not> contains k (lower ?a)" and "\<not> contains k (lower ?c)"
        unfolding contains_iff by blast+
      with k3 k4 show ?thesis
        by (simp only: contains_iff[symmetric] split[OF k1 k2] simp_thms)
    qed
    then have urban: "\<not> (\<exists>k \<in> set ?urban. is_substring k blob)"
      by blast
    have "contains ''hershey'' ''hershey''"
      by simp
    then have "is_substring ''hershey'' blob"
      by (simp only: contains_iff[symmetric] split simp_thms list.set insert_iff
            empty_iff char.inject list.simps)
    then have leisure: "\<exists>k \<in> set ?leisure. is_substring k blob"
      by (intro bexI[of _ "''hershey''"]) simp_all
    show ?thesis
      by (simp only: rule urban leisure if_True if_False)
  qed
qed

theorem infer_complexity_keyword_rule_witness:
  "infer_complexity
     [''Booking ID'', ''First Departure'', ''Route Description'', ''Destination'', ''Group Name'']
     [Text ''B1'', Text ''2023-01-06'', Text ''Charter'', Text ''Downtown NYC Tour'',
      Text ''Lincoln High''] = 1
   \<and> infer_complexity
     [''Booking ID'', ''First Departure'', ''Route Description'', ''Destination'', ''Group Name'']
     [Text ''B2'', Text ''2023-06-10'', Text ''Day trip'', Text ''Hershey Park'', Blank] = - 1"
proof -
  let ?cols = "[''Booking ID'', ''First Departure'', ''Route Description'', ''Destination'',
                ''Group Name'']"
  let ?r1 = "[Text ''B1'', Text ''2023-01-06'', Text ''Charter'', Text ''Downtown NYC Tour'',
              Text ''Lincoln High'']"
  let ?r2 = "[Text ''B2'', Text ''2023-06-10'', Text ''Day trip'', Text ''Hershey Park'', Blank]"
  have d1: "series_get ?cols ?r1 ''Destination'' (Text []) = Text ''Downtown NYC Tour''"
    by (simp add: series_get_def)
  have d2: "series_get ?cols ?r2 ''Destination'' (Text []) = Text ''Hershey Park''"
    by (simp add: series_get_def)
  have a2: "\<not> (\<exists>k \<in> set [''nyc'', ''manhattan'', ''dc'', ''downtown''].
      is_substring k (lower (str_cell (series_get ?cols ?r2 ''Route Description'' (Text [])))))"
    by (simp add: series_get_def lower_def lower_char_def contains_iff[symmetric])
  have c2: "\<not> (\<exists>k \<in> set [''nyc'', ''manhattan'', ''dc'', ''downtown''].
      is_substring k (lower (str_cell (series_get ?cols ?r2 ''Group Name'' (Text [])))))"
    by (simp add: series_get_def lower_def lower_char_def contains_iff[symmetric])
  have "infer_complexity ?cols ?r1 = 1"
    using infer_complexity_keyword_rule [of ?cols ?r1] d1 by blast
  moreover have "infer_complexity ?cols ?r2 = - 1"
    using infer_complexity_keyword_rule [of ?cols ?r2] d2 a2 c2 by blast
  ultimately show ?thesis
    by (rule conjI)
qed

lemma series_get_missing: "key \<notin> set cols \<Longrightarrow> series_get cols vals key dflt = dflt"
proof -
  assume "key \<notin> set cols"
  then have "key \<notin> fst ` set (zip cols vals)"
    by (auto dest: set_zip_leftD)
  then have "map_of (zip cols vals) key = None"
    by (simp add: map_of_eq_None_iff)
  then show ?thesis
    by (simp add: series_get_def)
qed

lemma notna_iff: "notna c \<longleftrightarrow> c \<noteq> Blank"
  by (cases c) simp_all

lemma column_text_get:
  "str_cell (series_get cols row name (Text [])) = column_text cols row name"
  by (simp add: column_text_def series_get_missing)

lemma infer_complexity_spec:
  "infer_complexity cols row =
     keyword_complexity
       (lower (column_text cols row ''Route Description'' @ '' ''
               @ column_text cols row ''Destination'' @ '' ''
               @ column_text cols row ''Group Name''))"
  unfolding column_text_get[symmetric]
  by (simp add: infer_complexity_def keyword_complexity_def Let_def contains_iff
        del: contains.simps)

lemma map_filter_concat:
  "List.map_filter f xs = concat (map (\<lambda>x. case f x of None \<Rightarrow> [] | Some y \<Rightarrow> [y]) xs)"
  by (induction xs) (simp_all add: List.map_filter_simps split: option.splits)

lemma load_dispatch_spec:
  assumes "''Booking ID'' \<in> set (df_columns df)" and "''First Departure'' \<in> set (df_columns df)"
  shows "load_dispatch to_datetime df = Inr (normalized_trips to_datetime df)"
proof -
  have "(\<lambda>rp. case (case snd rp of
                      None \<Rightarrow> None
                    | Some d \<Rightarrow> Some \<lparr>Date = d,
                          Trip_Complexity = infer_complexity (df_columns df) (fst rp)\<rparr>) of
               None \<Rightarrow> [] | Some y \<Rightarrow> [y])
      = (\<lambda>(r, parsed). case parsed of
               None \<Rightarrow> []
             | Some d \<Rightarrow> [\<lparr>Date = d,
                   Trip_Complexity = keyword_complexity
                     (lower (column_text (df_columns df) r ''Route Description'' @ '' ''
                             @ column_text (df_columns df) r ''Destination'' @ '' ''
                             @ column_text (df_columns df) r ''Group Name''))\<rparr>])"
    by (auto simp add: fun_eq_iff infer_complexity_spec split: option.splits)
  then show ?thesis
    using assms
    by (simp add: load_dispatch_def normalized_trips_def Let_def map_filter_concat notna_iff)
qed

lemma keyword_complexity_blank: "keyword_complexity (lower ([] @ '' '' @ [] @ '' '' @ [])) = 0"
  by (simp add: keyword_complexity_def lower_def lower_char_def contains_iff[symmetric])

lemma normalized_trips_no_text_columns:
  assumes "\<forall>name \<in> set [''Route Description'', ''Destination'', ''Group Name''].
             name \<notin> set (df_columns df)"
    and "t \<in> set (normalized_trips to_datetime df)"
  shows "Trip_Complexity t = 0"
proof -
  have ct: "column_text (df_columns df) r ''Route Description'' = []"
    "column_text (df_columns df) r ''Destination'' = []"
    "column_text (df_columns df) r ''Group Name'' = []" for r
    using assms(1) by (simp_all add: column_text_def)
  from assms(2) show ?thesis
    unfolding normalized_trips_def Let_def ct keyword_complexity_blank
    by (auto split: option.splits)
qed

text \<open>
  Claim C3, as the code has it. For every dispatch table without the column
  \<^verbatim>\<open>Booking ID\<close> or without the column \<^verbatim>\<open>First Departure\<close>, \<^verbatim>\<open>load_dispatch\<close>
  fails (a \<^verbatim>\<open>KeyError\<close>, the schema error of the specification) and produces no
  trip list. For every table with these two columns it returns the normalized trips
  of the specification, whatever its other columns are: one trip for every row with
  a booking id and a departure that parses, its complexity computed from the three
  text columns with a missing \<^verbatim>\<open>Route Description\<close>, \<^verbatim>\<open>Destination\<close> or
  \<^verbatim>\<open>Group Name\<close> read as the empty string. In particular, a table with none of
  the three text columns gives every trip the complexity 0.
\<close>

theorem load_dispatch_missing_column:
  "(''Booking ID'' \<notin> set (df_columns df) \<or> ''First Departure'' \<notin> set (df_columns df)
      \<longrightarrow> load_dispatch to_datetime df = Inl KeyError)
   \<and> (''Booking ID'' \<in> set (df_columns df) \<and> ''First Departure'' \<in> set (df_columns df)
      \<longrightarrow> load_dispatch to_datetime df = Inr (normalized_trips to_datetime df))
   \<and> (''Booking ID'' \<in> set (df_columns df) \<and> ''First Departure'' \<in> set (df_columns df)
        \<and> (\<forall>name \<in> set [''Route Description'', ''Destination'', ''Group Name''].
               name \<notin> set (df_columns df))
      \<longrightarrow> (\<exists>trips. load_dispatch to_datetime df = Inr trips
             \<and> length trips = length (normalized_trips to_datetime df)
             \<and> (\<forall>t \<in> set trips. Trip_Complexity t = 0)))"
proof (intro conjI impI)
  assume "''Booking ID'' \<notin> set (df_columns df) \<or> ''First Departure'' \<notin> set (df_columns df)"
  then show "load_dispatch to_datetime df = Inl KeyError"
    by (auto simp add: load_dispatch_def Let_def)
next
  assume "''Booking ID'' \<in> set (df_columns df) \<and> ''First Departure'' \<in> set (df_columns df)"
  then show "load_dispatch to_datetime df = Inr (normalized_trips to_datetime df)"
    by (simp add: load_dispatch_spec)
next
  assume a: "''Booking ID'' \<in> set (df_columns df) \<and> ''First Departure'' \<in> set (df_columns df)
        \<and> (\<forall>name \<in> set [''Route Description'', ''Destination'', ''Group Name''].
               name \<notin> set (df_columns df))"
  then have "load_dispatch to_datetime df = Inr (normalized_trips to_datetime df)"
    by (simp add: load_dispatch_spec)
  moreover have "\<forall>t \<in> set (normalized_trips to_datetime df). Trip_Complexity t = 0"
    using a normalized_trips_no_text_columns by blast
  ultimately show "\<exists>trips. load_dispatch to_datetime df = Inr trips
             \<and> length trips = length (normalized_trips to_datetime df)
             \<and> (\<forall>t \<in> set trips. Trip_Complexity t = 0)"
    by simp
qed

theorem load_dispatch_missing_column_witness:
  "load_dispatch
     (\<lambda>cs. map (\<lambda>c. if c = Text ''2023-06-10 08:30''
                      then Some \<lparr>year = 2023, month = 6, day = 10\<rparr> else None) cs)
     \<lparr>df_columns = [''First Departure'', ''Route Description'', ''Destination'', ''Group Name''],
      df_rows = [[Text ''2023-06-10 08:30'', Text ''Charter'', Text ''Hershey Park'',
                  Text ''Scouts'']]\<rparr>
     = Inl KeyError
   \<and> load_dispatch
     (\<lambda>cs. map (\<lambda>c. if c = Text ''2023-06-10 08:30''
                      then Some \<lparr>year = 2023, month = 6, day = 10\<rparr> else None) cs)
     \<lparr>df_columns = [''Booking ID'', ''First Departure'', ''Route Description'', ''Group Name''],
      df_rows = [[Blank, Text ''2023-06-10 08:30'', Text ''Manhattan loop'', Text ''Scouts''],
                 [Text ''B2'', Text ''not a date'', Text ''Hershey'', Text ''Choir''],
                 [Text ''B3'', Text ''2023-06-10 08:30'', Text ''Manhattan loop'',
                  Text ''Seniors''],
                 [Text ''B4'', Text ''2023-06-10 08:30'', Text ''Dorney outing'', Blank]]\<rparr>
     = Inr [\<lparr>Date = \<lparr>year = 2023, month = 6, day = 10\<rparr>, Trip_Complexity = 1\<rparr>,
            \<lparr>Date = \<lparr>year = 2023, month = 6, day = 10\<rparr>, Trip_Complexity = - 1\<rparr>]
   \<and> load_dispatch
     (\<lambda>cs. map (\<lambda>c. if c = Text ''2023-06-10 08:30''
                      then Some \<lparr>year = 2023, month = 6, day = 10\<rparr> else None) cs)
     \<lparr>df_columns = [''Booking ID'', ''First Departure''],
      df_rows = [[Text ''B5'', Text ''2023-06-10 08:30'']]\<rparr>
     = Inr [\<lparr>Date = \<lparr>year = 2023, month = 6, day = 10\<rparr>, Trip_Complexity = 0\<rparr>]"
proof -
  let ?p = "\<lambda>cs. map (\<lambda>c. if c = Text ''2023-06-10 08:30''
                      then Some \<lparr>year = 2023, month = 6, day = 10\<rparr> else None) cs"
  let ?d1 = "\<lparr>df_columns = [''First Departure'', ''Route Description'', ''Destination'',
                              ''Group Name''],
      df_rows = [[Text ''2023-06-10 08:30'', Text ''Charter'', Text ''Hershey Park'',
                  Text ''Scouts'']]\<rparr>"
  let ?d2 = "\<lparr>df_columns = [''Booking ID'', ''First Departure'', ''Route Description'',
                              ''Group Name''],
      df_rows = [[Blank, Text ''2023-06-10 08:30'', Text ''Manhattan loop'', Text ''Scouts''],
                 [Text ''B2'', Text ''not a date'', Text ''Hershey'', Text ''Choir''],
                 [Text ''B3'', Text ''2023-06-10 08:30'', Text ''Manhattan loop'',
                  Text ''Seniors''],
                 [Text ''B4'', Text ''2023-06-10 08:30'', Text ''Dorney outing'', Blank]]\<rparr>"
  let ?d3 = "\<lparr>df_columns = [''Booking ID'', ''First Departure''],
      df_rows = [[Text ''B5'', Text ''2023-06-10 08:30'']]\<rparr>"
  have n2: "normalized_trips ?p ?d2
      = [\<lparr>Date = \<lparr>year = 2023, month = 6, day = 10\<rparr>, Trip_Complexity = 1\<rparr>,
         \<lparr>Date = \<lparr>year = 2023, month = 6, day = 10\<rparr>, Trip_Complexity = - 1\<rparr>]"
    by (simp add: normalized_trips_def series_get_def column_text_def keyword_complexity_def
          lower_def lower_char_def contains_iff[symmetric])
  have n3: "normalized_trips ?p ?d3
      = [\<lparr>Date = \<lparr>year = 2023, month = 6, day = 10\<rparr>, Trip_Complexity = 0\<rparr>]"
    by (simp add: normalized_trips_def series_get_def column_text_def keyword_complexity_def
          lower_def lower_char_def contains_iff[symmetric])
  have "load_dispatch ?p ?d1 = Inl KeyError"
    using load_dispatch_missing_column [of ?d1 ?p] by simp
  moreover have "load_dispatch ?p ?d2 = Inr (normalized_trips ?p ?d2)"
    using load_dispatch_missing_column [of ?d2 ?p] by simp
  moreover have "load_dispatch ?p ?d3 = Inr (normalized_trips ?p ?d3)"
    using load_dispatch_missing_column [of ?d3 ?p] by simp
  ultimately show ?thesis
    by (simp only: n2 n3 simp_thms)
qed

text \<open>
  The counterexample to claim C3 as stated: a dispatch table without the required
  column \<^verbatim>\<open>Destination\<close>. Its one row has a booking id and a departure that parses
  to 2023-06-10; normalization does not fail and returns the trip, with complexity
  -1 from the word Park of the route description.
\<close>

theorem load_dispatch_without_destination_counterexample:
  "''Destination'' \<in> set required_columns
   \<and> ''Destination'' \<notin> set [''Booking ID'', ''First Departure'', ''Route Description'',
                                ''Group Name'']
   \<and> load_dispatch (\<lambda>cs. map (\<lambda>c. Some \<lparr>year = 2023, month = 6, day = 10\<rparr>) cs)
        \<lparr>df_columns = [''Booking ID'', ''First Departure'', ''Route Description'',
                        ''Group Name''],
         df_rows = [[Text ''B7'', Text ''2023-06-10 08:30'', Text ''Hershey Park outing'',
                     Text ''Scouts'']]\<rparr>
       = Inr [\<lparr>Date = \<lparr>year = 2023, month = 6, day = 10\<rparr>, Trip_Complexity = - 1\<rparr>]"
  by (simp add: required_columns_def load_dispatch_def series_get_def List.map_filter_simps
        infer_complexity_def lower_def lower_char_def)

end
